theory Spec2Isabelle
  imports Complex_Main "HOL-Library.Sublist"
begin

section \<open>Strings\<close>

text \<open>
  A JavaScript string is a sequence of UTF-16 code units and \<open>length\<close> counts code units.
  Strings are modelled as \<^typ>\<open>string\<close>; one \<^typ>\<open>char\<close> stands for one code unit in the
  range 0..255 (Basic Latin and Latin-1). The character classes below are the ECMAScript
  classes restricted to that range.
\<close>

definition isSpace :: "char \<Rightarrow> bool" where
  \<comment> \<open>the class \<open>\s\<close>, which is also what \<open>trim\<close> removes: TAB, LF, VT, FF, CR, SP, NBSP\<close>
  "isSpace c = (c \<in> set [CHR 0x09, CHR 0x0A, CHR 0x0B, CHR 0x0C, CHR 0x0D, CHR '' '', CHR 0xA0])"

definition isWordChar :: "char \<Rightarrow> bool" where
  \<comment> \<open>the class \<open>\w\<close> (no unicode flag): \<open>[A-Za-z0-9_]\<close>\<close>
  "isWordChar c =
     (c \<in> set ''ABCDEFGHIJKLMNOPQRSTUVWXYZabcdefghijklmnopqrstuvwxyz0123456789_'')"

definition trim :: "string \<Rightarrow> string" where
  "trim s = rev (dropWhile isSpace (rev (dropWhile isSpace s)))"

fun joinWith :: "string \<Rightarrow> string list \<Rightarrow> string" where
  "joinWith sep [] = []"
| "joinWith sep [x] = x"
| "joinWith sep (x # y # ys) = x @ sep @ joinWith sep (y # ys)"

fun includesStr :: "string \<Rightarrow> string \<Rightarrow> bool" where
  \<comment> \<open>\<open>s.includes(pat)\<close>\<close>
  "includesStr [] pat = (pat = [])"
| "includesStr (c # cs) pat = (prefix pat (c # cs) \<or> includesStr cs pat)"

definition toLowerChar :: "char \<Rightarrow> char" where
  \<comment> \<open>the upper-case letters of Basic Latin and Latin-1 (\<open>0xC0\<close> to \<open>0xDE\<close> without \<open>0xD7\<close>)
      move up by 32; every other code unit below 256 is its own lower case\<close>
  "toLowerChar c =
     (case map_of (zip
        (''ABCDEFGHIJKLMNOPQRSTUVWXYZ'' @
         [CHR 0xC0, CHR 0xC1, CHR 0xC2, CHR 0xC3, CHR 0xC4, CHR 0xC5, CHR 0xC6, CHR 0xC7,
          CHR 0xC8, CHR 0xC9, CHR 0xCA, CHR 0xCB, CHR 0xCC, CHR 0xCD, CHR 0xCE, CHR 0xCF,
          CHR 0xD0, CHR 0xD1, CHR 0xD2, CHR 0xD3, CHR 0xD4, CHR 0xD5, CHR 0xD6,
          CHR 0xD8, CHR 0xD9, CHR 0xDA, CHR 0xDB, CHR 0xDC, CHR 0xDD, CHR 0xDE])
        (''abcdefghijklmnopqrstuvwxyz'' @
         [CHR 0xE0, CHR 0xE1, CHR 0xE2, CHR 0xE3, CHR 0xE4, CHR 0xE5, CHR 0xE6, CHR 0xE7,
          CHR 0xE8, CHR 0xE9, CHR 0xEA, CHR 0xEB, CHR 0xEC, CHR 0xED, CHR 0xEE, CHR 0xEF,
          CHR 0xF0, CHR 0xF1, CHR 0xF2, CHR 0xF3, CHR 0xF4, CHR 0xF5, CHR 0xF6,
          CHR 0xF8, CHR 0xF9, CHR 0xFA, CHR 0xFB, CHR 0xFC, CHR 0xFD, CHR 0xFE])) c of
        Some l \<Rightarrow> l
      | None \<Rightarrow> c)"

definition toLowerCase :: "string \<Rightarrow> string" where
  "toLowerCase s = map toLowerChar s"

text \<open>
  \<open>s.replace(/pat/g, rep)\<close> for a pattern that is a literal, non-empty string: the
  occurrences are replaced from the left and the scan goes on after each one. (The source
  never replaces an empty pattern; the model leaves the string unchanged there.)
\<close>

function replaceAll :: "string \<Rightarrow> string \<Rightarrow> string \<Rightarrow> string" where
  "replaceAll pat rep [] = []"
| "replaceAll pat rep (c # cs) =
     (if pat \<noteq> [] \<and> prefix pat (c # cs)
      then rep @ replaceAll pat rep (drop (length pat) (c # cs))
      else c # replaceAll pat rep cs)"
  by pat_completeness auto
termination
  by (relation "measure (\<lambda>(pat, rep, s). length s)") (auto simp: neq_Nil_conv)

lemma dropWhile_shorter: "length (dropWhile P cs) - Suc 0 < Suc (length cs)"
  using length_dropWhile_le [of P cs] by simp

text \<open>
  \<open>s.replace(/<[^>]+>/g, '')\<close>: at a \<open><\<close> the greedy class takes every character up to the
  next \<open>>\<close>; the tag is removed when that run is not empty and a \<open>>\<close> follows it.
\<close>

function stripTags :: "string \<Rightarrow> string" where
  "stripTags [] = []"
| "stripTags (c # cs) =
     (if c = CHR ''<'' \<and> takeWhile (\<lambda>x. x \<noteq> CHR ''>'') cs \<noteq> []
          \<and> dropWhile (\<lambda>x. x \<noteq> CHR ''>'') cs \<noteq> []
      then stripTags (tl (dropWhile (\<lambda>x. x \<noteq> CHR ''>'') cs))
      else c # stripTags cs)"
  by pat_completeness auto
termination
  by (relation "measure length") (simp_all add: dropWhile_shorter)

text \<open>\<open>s.replace(/\s+/g, ' ')\<close>: every maximal run of white space becomes one space.\<close>

function collapseWs :: "string \<Rightarrow> string" where
  "collapseWs [] = []"
| "collapseWs (c # cs) =
     (if isSpace c then CHR '' '' # collapseWs (dropWhile isSpace cs) else c # collapseWs cs)"
  by pat_completeness auto
termination
  by (relation "measure length") (auto intro: length_dropWhile_le [THEN le_imp_less_Suc])

text \<open>
  \<open>s.split(/\s+/)\<close>: the pieces between the maximal runs of white space. Leading or
  trailing white space gives an empty first or last piece, and the empty string gives
  one empty piece.
\<close>

function splitWs :: "string \<Rightarrow> string list" where
  "splitWs s =
     (case dropWhile (\<lambda>c. \<not> isSpace c) s of
        [] \<Rightarrow> [s]
      | c # cs \<Rightarrow> takeWhile (\<lambda>c. \<not> isSpace c) s # splitWs (dropWhile isSpace cs))"
  by pat_completeness auto
termination
proof (relation "measure length")
  show "wf (measure length)" by simp
next
  fix s :: string and c cs
  assume d: "dropWhile (\<lambda>c. \<not> isSpace c) s = c # cs"
  have "length (dropWhile isSpace cs) \<le> length cs"
    by (rule length_dropWhile_le)
  moreover have "length (c # cs) \<le> length s"
    using length_dropWhile_le [of "\<lambda>c. \<not> isSpace c" s] d by simp
  ultimately show "(dropWhile isSpace cs, s) \<in> measure length" by simp
qed

declare splitWs.simps [simp del]

fun splitAtFirst :: "string \<Rightarrow> string \<Rightarrow> (string \<times> string) option" where
  \<comment> \<open>the text before and after the first occurrence of \<open>pat\<close>\<close>
  "splitAtFirst pat [] = (if pat = [] then Some ([], []) else None)"
| "splitAtFirst pat (c # cs) =
     (if prefix pat (c # cs) then Some ([], drop (length pat) (c # cs))
      else (case splitAtFirst pat cs of
              None \<Rightarrow> None
            | Some (a, b) \<Rightarrow> Some (c # a, b)))"

lemma splitAtFirst_length: "splitAtFirst pat s = Some (a, b) \<Longrightarrow> length b \<le> length s"
  by (induction s arbitrary: a) (auto split: if_splits option.splits)

section \<open>The identifier parser\<close>

text \<open>
  \<^verbatim>\<open>
  function extractVideoId(url: string): string | null {
    const patterns = [
      /(?:youtube\.com\/watch\?v=|youtu\.be\/|youtube\.com\/embed\/)([^&\n?#]+)/,
      /^([a-zA-Z0-9_-]{11})$/
    ];
    for (const pattern of patterns) {
      const match = url.match(pattern);
      if (match) return match[1];
    }
    return null;
  }
  \<close>
  The first pattern is unanchored: the matcher tries every start position from the left,
  at each position the three alternatives in order, and the capture group is greedy and
  needs at least one character. The second pattern is anchored at both ends (no \<open>m\<close> flag).
\<close>

definition urlMarkers :: "string list" where
  "urlMarkers = [''youtube.com/watch?v='', ''youtu.be/'', ''youtube.com/embed/'']"

definition idStop :: "char \<Rightarrow> bool" where
  \<comment> \<open>the characters excluded by \<open>[^&\n?#]\<close>\<close>
  "idStop c = (c \<in> set [CHR ''&'', CHR 0x0A, CHR ''?'', CHR ''#''])"

definition idChar :: "char \<Rightarrow> bool" where
  \<comment> \<open>the class \<open>[a-zA-Z0-9_-]\<close>\<close>
  "idChar c =
     (c \<in> set ''abcdefghijklmnopqrstuvwxyzABCDEFGHIJKLMNOPQRSTUVWXYZ0123456789_-'')"

fun matchIdAfter :: "string list \<Rightarrow> string \<Rightarrow> string option" where
  \<comment> \<open>the first pattern tried at the start of \<open>s\<close>, over the alternatives \<open>ms\<close>\<close>
  "matchIdAfter [] s = None"
| "matchIdAfter (m # ms) s =
     (if prefix m s \<and> takeWhile (\<lambda>c. \<not> idStop c) (drop (length m) s) \<noteq> []
      then Some (takeWhile (\<lambda>c. \<not> idStop c) (drop (length m) s))
      else matchIdAfter ms s)"

fun searchUrlId :: "string \<Rightarrow> string option" where
  \<comment> \<open>the first pattern tried at every start position, leftmost first\<close>
  "searchUrlId [] = matchIdAfter urlMarkers []"
| "searchUrlId (c # cs) =
     (case matchIdAfter urlMarkers (c # cs) of
        Some v \<Rightarrow> Some v
      | None \<Rightarrow> searchUrlId cs)"

definition matchBareId :: "string \<Rightarrow> string option" where
  "matchBareId s = (if length s = 11 \<and> list_all idChar s then Some s else None)"

definition extractVideoId :: "string \<Rightarrow> string option" where
  "extractVideoId url =
     (case searchUrlId url of
        Some v \<Rightarrow> Some v
      | None \<Rightarrow> matchBareId url)"

section \<open>The transcript quality analyzer\<close>

text \<open>
  \<^verbatim>\<open>
  const conversationalWords = ['I ', 'you ', 'we ', 'hello', 'hi ', 'hey ', 'thanks', 'okay',
                               'right', 'so ', 'um ', 'uh '];
  const hasConversational = conversationalWords.some(word => text.toLowerCase().includes(word));
  const firstPersonPronouns = text.toLowerCase().match(/\b(i|we|my|our|me|us)\b/g)?.length || 0;
  const totalWords = text.split(/\s+/).length;
  const firstPersonRatio = firstPersonPronouns / totalWords;
  if (firstPersonRatio > 0.02 || hasConversational) { ... 'HIGH' ... }
  return { likelySpoken: true, confidence: 'MEDIUM', reason: 'Appears to be caption text' };
  \<close>
\<close>

record QualityAssessment =
  likelySpoken :: bool
  confidence :: string
  reason :: string

definition conversationalWords :: "string list" where
  "conversationalWords =
     [''I '', ''you '', ''we '', ''hello'', ''hi '', ''hey '', ''thanks'', ''okay'', ''right'',
      ''so '', ''um '', ''uh '']"

definition hasConversational :: "string \<Rightarrow> bool" where
  "hasConversational text = list_ex (\<lambda>word. includesStr (toLowerCase text) word) conversationalWords"

definition pronouns :: "string list" where
  "pronouns = [''i'', ''we'', ''my'', ''our'', ''me'', ''us'']"

fun matchPronounAt :: "string list \<Rightarrow> string \<Rightarrow> nat option" where
  \<comment> \<open>\<open>(i|we|my|our|me|us)\b\<close> tried at the start of \<open>s\<close>, the alternatives in order: the
      length of the match. The closing \<open>\b\<close> holds when no word character follows.\<close>
  "matchPronounAt [] s = None"
| "matchPronounAt (p # ps) s =
     (if prefix p s \<and> (case drop (length p) s of [] \<Rightarrow> True | c # _ \<Rightarrow> \<not> isWordChar c)
      then Some (length p)
      else matchPronounAt ps s)"

lemma matchPronounAt_positive: "matchPronounAt pronouns s = Some k \<Longrightarrow> 0 < k \<and> k \<le> length s"
  by (auto simp: pronouns_def prefix_def split: if_splits)

text \<open>
  The global match of \<open>/\b(i|we|my|our|me|us)\b/g\<close>, counted. \<open>prevWord\<close> tells whether
  the character before the current position is a word character; every alternative
  starts with a letter, so the opening \<open>\b\<close> holds exactly when it is not. After a match
  the scan goes on behind it.
\<close>

function countPronouns :: "bool \<Rightarrow> string \<Rightarrow> nat" where
  "countPronouns prevWord [] = 0"
| "countPronouns prevWord (c # cs) =
     (if prevWord then countPronouns (isWordChar c) cs
      else (case matchPronounAt pronouns (c # cs) of
              Some k \<Rightarrow> Suc (countPronouns True (drop k (c # cs)))
            | None \<Rightarrow> countPronouns (isWordChar c) cs))"
  by pat_completeness auto
termination
  by (relation "measure (\<lambda>(p, s). length s)") (auto dest: matchPronounAt_positive)

definition firstPersonPronouns :: "string \<Rightarrow> nat" where
  "firstPersonPronouns text = countPronouns False (toLowerCase text)"

definition totalWords :: "string \<Rightarrow> nat" where
  "totalWords text = length (splitWs text)"

text \<open>
  The quotient is a double in the source. \<open>totalWords\<close> is at least 1, and for every
  string a JavaScript engine can hold (fewer than \<open>2^32\<close> code units) the rounded quotient
  exceeds the double \<open>0.02\<close> exactly when the exact quotient exceeds \<open>2/100\<close>, so the
  comparison is modelled over the reals.
\<close>

definition firstPersonRatio :: "string \<Rightarrow> real" where
  "firstPersonRatio text = real (firstPersonPronouns text) / real (totalWords text)"

definition analyzeTranscriptQuality :: "string \<Rightarrow> QualityAssessment" where
  "analyzeTranscriptQuality text =
     (if firstPersonRatio text > 0.02 \<or> hasConversational text
      then \<lparr>likelySpoken = True, confidence = ''HIGH'',
            reason = ''Contains conversational language and personal pronouns''\<rparr>
      else \<lparr>likelySpoken = True, confidence = ''MEDIUM'',
            reason = ''Appears to be caption text''\<rparr>)"

section \<open>The format decoders\<close>

text \<open>
  \<open>Array.from(s.matchAll(/<text[^>]*>(.*?)<\/text>/gs))\<close>, the captured groups. At a
  position where \<open><text\<close> starts, the greedy class runs to the next \<open>>\<close> (which must exist),
  and the lazy group ends at the first \<open></text>\<close> behind it (the \<open>s\<close> flag lets the dot match
  line breaks). The scan goes on behind each match.
\<close>

definition matchTextAt :: "string \<Rightarrow> (string \<times> string) option" where
  \<comment> \<open>the pattern tried at the start of \<open>s\<close>: the captured group and the text behind the match\<close>
  "matchTextAt s =
     (if prefix ''<text'' s
      then (case dropWhile (\<lambda>c. c \<noteq> CHR ''>'') (drop 5 s) of
              [] \<Rightarrow> None
            | _ # body \<Rightarrow> splitAtFirst ''</text>'' body)
      else None)"

lemma matchTextAt_shorter: "matchTextAt s = Some (a, b) \<Longrightarrow> length b < length s"
proof -
  assume m: "matchTextAt s = Some (a, b)"
  from m obtain x body where d: "dropWhile (\<lambda>c. c \<noteq> CHR ''>'') (drop 5 s) = x # body"
    and sp: "splitAtFirst ''</text>'' body = Some (a, b)"
    by (auto simp: matchTextAt_def split: if_splits list.splits)
  have "length (x # body) \<le> length (drop 5 s)"
    using length_dropWhile_le [of "\<lambda>c. c \<noteq> CHR ''>''" "drop 5 s"] d by simp
  then have "length body < length s" by simp
  with splitAtFirst_length [OF sp] show ?thesis by simp
qed

function textMatches :: "string \<Rightarrow> string list" where
  "textMatches s =
     (case matchTextAt s of
        Some (inner, after) \<Rightarrow> inner # textMatches after
      | None \<Rightarrow> (case s of [] \<Rightarrow> [] | _ # cs \<Rightarrow> textMatches cs))"
  by pat_completeness auto
termination
  by (relation "measure length") (auto dest: matchTextAt_shorter)

declare textMatches.simps [simp del]

text \<open>
  The cue decoder of the primary strategy (lines 165 to 184 of the extractor):
  \<^verbatim>\<open>
  text = text.replace(/&amp;/g, '&').replace(/&lt;/g, '<').replace(/&gt;/g, '>')
             .replace(/&quot;/g, '"').replace(/&#39;/g, "'")
             .replace(/<[^>]+>/g, '').replace(/\n/g, ' ').trim();
  \<close>
\<close>

definition decodeCueA :: "string \<Rightarrow> string" where
  "decodeCueA cue =
     trim (replaceAll [CHR 0x0A] '' ''
       (stripTags
         (replaceAll ''&#39;'' [CHR 0x27]
           (replaceAll ''&quot;'' [CHR 0x22]
             (replaceAll ''&gt;'' ''>''
               (replaceAll ''&lt;'' ''<''
                 (replaceAll ''&amp;'' ''&'' cue)))))))"

text \<open>
  The cue decoder of the page-scrape strategy (lines 357 to 375) and of the language
  brute-force strategy (lines 436 to 453), which are the same text:
  \<^verbatim>\<open>
  text = text.replace(/&/g, '&').replace(/</g, '<').replace(/>/g, '>')
             .replace(/&quot;/g, '"').replace(/&#39;/g, "'")
             .replace(/<[^>]+>/g, '').replace(/\n/g, ' ').trim();
  \<close>
\<close>

definition decodeCueB :: "string \<Rightarrow> string" where
  "decodeCueB cue =
     trim (replaceAll [CHR 0x0A] '' ''
       (stripTags
         (replaceAll ''&#39;'' [CHR 0x27]
           (replaceAll ''&quot;'' [CHR 0x22]
             (replaceAll ''>'' ''>''
               (replaceAll ''<'' ''<''
                 (replaceAll ''&'' ''&'' cue)))))))"

definition joinCues :: "string list \<Rightarrow> string" where
  \<comment> \<open>\<open>.filter(text => text.length > 0).join(' ').replace(/\s+/g, ' ').trim()\<close>\<close>
  "joinCues cues = trim (collapseWs (joinWith '' '' (filter (\<lambda>t. length t > 0) cues)))"

definition decodeMarkupA :: "string \<Rightarrow> string" where
  "decodeMarkupA content = joinCues (map decodeCueA (textMatches content))"

definition decodeMarkupB :: "string \<Rightarrow> string" where
  "decodeMarkupB content = joinCues (map decodeCueB (textMatches content))"

text \<open>
  The structured-segment payload (\<open>json3\<close>), as \<open>JSON.parse\<close> delivers it: the fields the
  source tests for presence are optional.
\<close>

record Seg =
  utf8 :: "string option"

record Json3Event =
  segs :: "Seg list option"

record Json3 =
  events :: "Json3Event list option"

definition segText :: "Seg \<Rightarrow> string" where
  \<comment> \<open>\<open>seg.utf8 || ''\<close>\<close>
  "segText seg = (case utf8 seg of None \<Rightarrow> [] | Some u \<Rightarrow> u)"

definition eventText :: "Seg list \<Rightarrow> string" where
  \<comment> \<open>\<open>event.segs.map(seg => seg.utf8 || '').join('').trim()\<close>\<close>
  "eventText sgs = trim (concat (map segText sgs))"

definition decodeJson3 :: "Json3 \<Rightarrow> string" where
  "decodeJson3 jsonData =
     (case events jsonData of
        None \<Rightarrow> []
      | Some evs \<Rightarrow>
          trim (collapseWs (replaceAll [CHR 0x0A] '' ''
            (joinWith '' ''
              (filter (\<lambda>t. length t > 0)
                (map eventText (List.map_filter segs evs)))))))"

section \<open>Results, faults and the outside world\<close>

record CaptionResult =
  transcript :: string
  source :: string
  language :: string
  method_id :: string  \<comment> \<open>the field \<open>method\<close> of the source\<close>

text \<open>
  A thrown value: an \<open>Error\<close> with its message, which is what \<open>fetch\<close>, \<open>JSON.parse\<close>, a
  property read of \<open>undefined\<close>, a dynamic import and the transcript package throw.
  Everything the extractor awaits either delivers a value or throws. Each \<open>catch\<close> of the
  source only prints \<open>error.message\<close>, which on an \<open>Error\<close> cannot fail, and goes on.
\<close>

datatype exn = Error string

record Request =
  req_url :: string
  req_userAgent :: "string option"  \<comment> \<open>the \<open>User-Agent\<close> header, when the call sets one\<close>

record Response =
  ok :: bool
  status :: nat
  body :: "exn + string"  \<comment> \<open>what \<open>await response.text()\<close> gives\<close>

record Track =
  snippet_language :: string  \<comment> \<open>\<open>item.snippet.language\<close>\<close>
  snippet_trackKind :: string  \<comment> \<open>\<open>item.snippet.trackKind\<close>\<close>
  snippet_name :: string  \<comment> \<open>\<open>item.snippet.name\<close>\<close>

record Listing =
  items :: "Track list option"  \<comment> \<open>\<open>data.items\<close>, absent or an array\<close>

record PageTrack =
  languageCode :: "string option"
  baseUrl :: "string option"
  simpleText :: "string option"  \<comment> \<open>\<open>track.name?.simpleText\<close>\<close>

record Cue =
  cueText :: string  \<comment> \<open>the field \<open>text\<close> of a cue of the transcript package\<close>
  offset :: nat
  duration :: nat

text \<open>
  The outside world is a parameter of every strategy. Network and package calls are
  answered by moment (the number of external calls made before), so the same request may
  be answered differently when it is repeated. \<open>JSON.parse\<close> is a function of the text.
  A parse result is typed by the shape the code reads; a text that is not JSON, and a
  value on which one of the code's property reads would throw, are both the \<open>Inl\<close> branch.
\<close>

record World =
  fetch :: "nat \<Rightarrow> Request \<Rightarrow> exn + Response"
  parseListing :: "string \<Rightarrow> exn + Listing"
  parseJson3 :: "string \<Rightarrow> exn + Json3"
  parsePageTracks :: "string \<Rightarrow> exn + PageTrack list"
  importPackage :: "nat \<Rightarrow> exn + unit"
  fetchTranscript :: "nat \<Rightarrow> string \<Rightarrow> string option \<Rightarrow> exn + Cue list option"

datatype Strategy = StrategyA | StrategyB | StrategyC | StrategyD

text \<open>
  What a run leaves behind: the banner each strategy prints first, every external call,
  the quality report, and the lines \<open>extractCaptions\<close> prints on its way out. The other
  console lines carry nothing a property below reads and are left out.
\<close>

datatype Event =
    Banner Strategy
  | Fetched Request
  | Imported
  | TranscriptRequested string "string option"
  | QualityReport QualityAssessment
  | Success Strategy
  | PrimarySkipped
  | AllFailed

record Session =
  tick :: nat  \<comment> \<open>the number of external calls made so far\<close>
  trace :: "Event list"

type_synonym 'a io = "Session \<Rightarrow> (exn + 'a) \<times> Session"

definition io_return :: "'a \<Rightarrow> 'a io" where
  "io_return x = (\<lambda>s. (Inr x, s))"

definition io_throw :: "exn \<Rightarrow> 'a io" where
  "io_throw e = (\<lambda>s. (Inl e, s))"

definition io_lift :: "exn + 'a \<Rightarrow> 'a io" where
  \<comment> \<open>a step that may throw and touches nothing\<close>
  "io_lift r = (\<lambda>s. (r, s))"

definition io_bind :: "'a io \<Rightarrow> ('a \<Rightarrow> 'b io) \<Rightarrow> 'b io" where
  "io_bind m f = (\<lambda>s. case m s of (Inl e, s') \<Rightarrow> (Inl e, s') | (Inr x, s') \<Rightarrow> f x s')"

definition io_catch :: "'a io \<Rightarrow> (exn \<Rightarrow> 'a io) \<Rightarrow> 'a io" where
  \<comment> \<open>\<open>try { m } catch (e) { h e }\<close>\<close>
  "io_catch m h = (\<lambda>s. case m s of (Inl e, s') \<Rightarrow> h e s' | (Inr x, s') \<Rightarrow> (Inr x, s'))"

definition io_log :: "Event \<Rightarrow> unit io" where
  "io_log ev = (\<lambda>s. (Inr (), s\<lparr>trace := trace s @ [ev]\<rparr>))"

definition io_await :: "Event \<Rightarrow> (nat \<Rightarrow> exn + 'a) \<Rightarrow> 'a io" where
  \<comment> \<open>an external call: answered by the moment, recorded, and the moment moves on\<close>
  "io_await ev call = (\<lambda>s. (call (tick s), s\<lparr>tick := Suc (tick s), trace := trace s @ [ev]\<rparr>))"

definition httpGet :: "World \<Rightarrow> Request \<Rightarrow> Response io" where
  "httpGet w req = io_await (Fetched req) (\<lambda>n. fetch w n req)"

section \<open>The primary strategy: track listing and content download\<close>

definition captionsListUrl :: "string \<Rightarrow> string \<Rightarrow> string" where
  "captionsListUrl videoId apiKey =
     ''https://www.googleapis.com/youtube/v3/captions?part=snippet&videoId='' @ videoId
       @ ''&key='' @ apiKey"

definition timedTextUrl :: "string \<Rightarrow> string \<Rightarrow> string \<Rightarrow> string" where
  "timedTextUrl videoId lang fmt =
     ''https://www.youtube.com/api/timedtext?v='' @ videoId @ ''&lang='' @ lang @ ''&fmt='' @ fmt"

definition responseJson :: "(string \<Rightarrow> exn + 'a) \<Rightarrow> Response \<Rightarrow> exn + 'a" where
  \<comment> \<open>\<open>await response.json()\<close>: the body, then the parser\<close>
  "responseJson parse r = (case body r of Inl e \<Rightarrow> Inl e | Inr t \<Rightarrow> parse t)"

text \<open>
  \<^verbatim>\<open>
  // Priority: English standard > English auto > Any standard > Any auto > First available
  let selectedTrack = data.items.find(item =>
    item.snippet.language === 'en' && item.snippet.trackKind === 'standard');
  if (!selectedTrack) selectedTrack = data.items.find(item =>
    item.snippet.language === 'en' && item.snippet.trackKind === 'asr');
  if (!selectedTrack) selectedTrack = data.items.find(item => item.snippet.trackKind === 'standard');
  if (!selectedTrack) selectedTrack = data.items.find(item => item.snippet.trackKind === 'asr');
  if (!selectedTrack) selectedTrack = data.items[0];
  \<close>
  The listing names the machine-generated kind \<open>asr\<close>. On an empty list the last step
  reads \<open>undefined\<close>, the value \<open>None\<close> here.
\<close>

definition selectTrack :: "Track list \<Rightarrow> Track option" where
  "selectTrack its =
     (case find (\<lambda>item. snippet_language item = ''en'' \<and> snippet_trackKind item = ''standard'') its of
        Some t \<Rightarrow> Some t
      | None \<Rightarrow>
     (case find (\<lambda>item. snippet_language item = ''en'' \<and> snippet_trackKind item = ''asr'') its of
        Some t \<Rightarrow> Some t
      | None \<Rightarrow>
     (case find (\<lambda>item. snippet_trackKind item = ''standard'') its of
        Some t \<Rightarrow> Some t
      | None \<Rightarrow>
     (case find (\<lambda>item. snippet_trackKind item = ''asr'') its of
        Some t \<Rightarrow> Some t
      | None \<Rightarrow>
     (case its of [] \<Rightarrow> None | t # _ \<Rightarrow> Some t)))))"

definition formats :: "(string \<times> string) list" where
  "formats = [(''srv3'', ''SRV3''), (''json3'', ''JSON3''), (''srv1'', ''SRV1'')]"

text \<open>
  One round of the loop over the formats, inside its \<open>try\<close>: \<open>Some\<close> is the \<open>return\<close> of
  the result, \<open>None\<close> is a \<open>continue\<close> or the end of the round.
\<close>

definition attemptFormat ::
  "(string \<Rightarrow> QualityAssessment) \<Rightarrow> World \<Rightarrow> string \<Rightarrow> string \<Rightarrow> string \<Rightarrow> string
     \<Rightarrow> CaptionResult option io" where
  "attemptFormat analyze w videoId lang trackKind fmt =
     io_bind (httpGet w \<lparr>req_url = timedTextUrl videoId lang fmt, req_userAgent = None\<rparr>)
       (\<lambda>captionResponse.
     if \<not> ok captionResponse then io_return None
     else io_bind (io_lift (body captionResponse)) (\<lambda>captionContent.
     if length captionContent < 100 then io_return None
     else io_bind
            (if fmt = ''json3''
             then io_bind (io_lift (parseJson3 w captionContent)) (\<lambda>jsonData.
                    io_return (decodeJson3 jsonData))
             else io_return (decodeMarkupA captionContent))
       (\<lambda>text.
     if length text > 50
     then io_bind (io_log (QualityReport (analyze text))) (\<lambda>_.
            io_return (Some \<lparr>transcript = text, source = ''captions'', language = lang,
                              method_id = ''youtube-data-api-'' @ trackKind\<rparr>))
     else io_return None)))"

fun tryFormats ::
  "(string \<Rightarrow> QualityAssessment) \<Rightarrow> World \<Rightarrow> string \<Rightarrow> string \<Rightarrow> string
     \<Rightarrow> (string \<times> string) list \<Rightarrow> CaptionResult option io" where
  "tryFormats analyze w videoId lang trackKind [] = io_return None"
| "tryFormats analyze w videoId lang trackKind (format # rest) =
     io_bind (io_catch (attemptFormat analyze w videoId lang trackKind (fst format))
                (\<lambda>err. io_return None))
       (\<lambda>r. case r of
               Some result \<Rightarrow> io_return (Some result)
             | None \<Rightarrow> tryFormats analyze w videoId lang trackKind rest)"

definition extractWithYouTubeDataAPI_with ::
  "(string \<Rightarrow> QualityAssessment) \<Rightarrow> World \<Rightarrow> string \<Rightarrow> string \<Rightarrow> CaptionResult option io" where
  "extractWithYouTubeDataAPI_with analyze w videoId apiKey =
     io_catch
       (io_bind (io_log (Banner StrategyA)) (\<lambda>_.
        io_bind (httpGet w \<lparr>req_url = captionsListUrl videoId apiKey, req_userAgent = None\<rparr>)
          (\<lambda>response.
        if \<not> ok response
        then io_bind (io_lift (body response)) (\<lambda>errorText. io_return None)
        else io_bind (io_lift (responseJson (parseListing w) response)) (\<lambda>data.
        case items data of
          None \<Rightarrow> io_return None
        | Some its \<Rightarrow>
            if its = [] then io_return None
            else (case selectTrack its of
                    None \<Rightarrow> io_throw (Error ''TypeError'')
                  | Some selectedTrack \<Rightarrow>
                      tryFormats analyze w videoId (snippet_language selectedTrack)
                        (snippet_trackKind selectedTrack) formats)))))
       (\<lambda>error. io_return None)"

definition extractWithYouTubeDataAPI :: "World \<Rightarrow> string \<Rightarrow> string \<Rightarrow> CaptionResult option io" where
  "extractWithYouTubeDataAPI = extractWithYouTubeDataAPI_with analyzeTranscriptQuality"

section \<open>Strategy B: the transcript package\<close>

definition extractWithYoutubeTranscript_with ::
  "(string \<Rightarrow> QualityAssessment) \<Rightarrow> World \<Rightarrow> string \<Rightarrow> CaptionResult option io" where
  "extractWithYoutubeTranscript_with analyze w videoId =
     io_catch
       (io_bind (io_log (Banner StrategyB)) (\<lambda>_.
        io_bind (io_await Imported (importPackage w)) (\<lambda>_.
        io_bind
          (io_catch
             (io_await (TranscriptRequested videoId (Some ''en''))
                (\<lambda>n. fetchTranscript w n videoId (Some ''en'')))
             (\<lambda>e. io_await (TranscriptRequested videoId None)
                (\<lambda>n. fetchTranscript w n videoId None)))
          (\<lambda>transcriptData.
        case transcriptData of
          None \<Rightarrow> io_return None
        | Some cues \<Rightarrow>
            if cues = [] then io_return None
            else let text = trim (collapseWs (joinWith '' '' (map cueText cues))) in
              if length text < 50 then io_return None
              else io_bind (io_log (QualityReport (analyze text))) (\<lambda>_.
                     io_return (Some \<lparr>transcript = text, source = ''captions'', language = ''en'',
                                       method_id = ''youtube-transcript-package''\<rparr>))))))
       (\<lambda>error. io_return None)"

definition extractWithYoutubeTranscript :: "World \<Rightarrow> string \<Rightarrow> CaptionResult option io" where
  "extractWithYoutubeTranscript = extractWithYoutubeTranscript_with analyzeTranscriptQuality"

section \<open>Strategy C: the caption tracks of the video page\<close>

text \<open>
  \<open>html.match(/"captionTracks":\s*(\[.*?\])/)\<close>, and with the \<open>s\<close> flag the tail of the
  alternate pattern. Behind the key and any white space a \<open>[\<close> must follow; the lazy group
  ends at the first \<open>]\<close>, and without the \<open>s\<close> flag no line terminator may stand before it.
\<close>

definition isLineTerminator :: "char \<Rightarrow> bool" where
  "isLineTerminator c = (c = CHR 0x0A \<or> c = CHR 0x0D)"

definition matchTracksTail :: "bool \<Rightarrow> string \<Rightarrow> string option" where
  "matchTracksTail dotAll s =
     (case dropWhile isSpace s of
        [] \<Rightarrow> None
      | c # rest \<Rightarrow>
          if c = CHR ''['' \<and> dropWhile (\<lambda>x. x \<noteq> CHR '']'') rest \<noteq> []
               \<and> (dotAll \<or> \<not> list_ex isLineTerminator (takeWhile (\<lambda>x. x \<noteq> CHR '']'') rest))
          then Some (CHR ''['' # takeWhile (\<lambda>x. x \<noteq> CHR '']'') rest @ '']'')
          else None)"

fun searchTracks :: "bool \<Rightarrow> string \<Rightarrow> string option" where
  "searchTracks dotAll [] = None"
| "searchTracks dotAll (c # cs) =
     (if prefix [CHR 0x22, CHR ''c'', CHR ''a'', CHR ''p'', CHR ''t'', CHR ''i'', CHR ''o'',
                 CHR ''n'', CHR ''T'', CHR ''r'', CHR ''a'', CHR ''c'', CHR ''k'', CHR ''s'',
                 CHR 0x22, CHR '':''] (c # cs)
      then (case matchTracksTail dotAll (drop 16 (c # cs)) of
              Some m \<Rightarrow> Some m
            | None \<Rightarrow> searchTracks dotAll cs)
      else searchTracks dotAll cs)"

text \<open>
  \<open>html.match(/"captions".*?"playerCaptionsTracklistRenderer".*?"captionTracks":\s*(\[.*?\])/s)\<close>.
  The first lazy gap stops at the first renderer key behind \<open>"captions"\<close>: when the rest
  of the pattern fails behind that one, it fails behind every later one too.
\<close>

fun searchAltTracks :: "string \<Rightarrow> string option" where
  "searchAltTracks [] = None"
| "searchAltTracks (c # cs) =
     (if prefix [CHR 0x22, CHR ''c'', CHR ''a'', CHR ''p'', CHR ''t'', CHR ''i'', CHR ''o'',
                 CHR ''n'', CHR ''s'', CHR 0x22] (c # cs)
      then (case splitAtFirst
                   ([CHR 0x22] @ ''playerCaptionsTracklistRenderer'' @ [CHR 0x22])
                   (drop 10 (c # cs)) of
              None \<Rightarrow> searchAltTracks cs
            | Some (gap, after) \<Rightarrow>
                (case searchTracks True after of
                   Some m \<Rightarrow> Some m
                 | None \<Rightarrow> searchAltTracks cs))
      else searchAltTracks cs)"

text \<open>
  \<^verbatim>\<open>
  let track = tracks.find(t => t.languageCode === 'en');
  if (!track) track = tracks.find(t => t.languageCode?.startsWith('en'));
  if (!track) track = tracks[0];
  \<close>
\<close>

definition selectPageTrack :: "PageTrack list \<Rightarrow> PageTrack option" where
  "selectPageTrack tracks =
     (case find (\<lambda>t. languageCode t = Some ''en'') tracks of
        Some t \<Rightarrow> Some t
      | None \<Rightarrow>
     (case find (\<lambda>t. case languageCode t of None \<Rightarrow> False | Some l \<Rightarrow> prefix ''en'' l) tracks of
        Some t \<Rightarrow> Some t
      | None \<Rightarrow>
     (case tracks of [] \<Rightarrow> None | t # _ \<Rightarrow> Some t)))"

definition parseCaptionTracks :: "World \<Rightarrow> string \<Rightarrow> CaptionResult option io" where
  "parseCaptionTracks w tracksJson =
     io_catch
       (io_bind (io_lift (parsePageTracks w tracksJson)) (\<lambda>tracks.
        case selectPageTrack tracks of
          None \<Rightarrow> io_return None
        | Some track \<Rightarrow>
        (case baseUrl track of
          None \<Rightarrow> io_return None
        | Some locator \<Rightarrow>
            if locator = [] then io_return None
            else io_bind (httpGet w \<lparr>req_url = locator, req_userAgent = None\<rparr>)
                   (\<lambda>captionResponse.
            if \<not> ok captionResponse then io_return None
            else io_bind (io_lift (body captionResponse)) (\<lambda>captionXml.
            if textMatches captionXml = [] then io_return None
            else let text = decodeMarkupB captionXml in
              if length text < 50 then io_return None
              else io_return (Some \<lparr>transcript = text, source = ''captions'',
                     language = (case languageCode track of
                                   None \<Rightarrow> ''unknown''
                                 | Some l \<Rightarrow> if l = [] then ''unknown'' else l),
                     method_id = ''timedtext-api''\<rparr>))))))
       (\<lambda>error. io_return None)"

definition watchUrl :: "string \<Rightarrow> string" where
  "watchUrl videoId = ''https://www.youtube.com/watch?v='' @ videoId"

definition browserIdentity :: string where
  "browserIdentity = ''Mozilla/5.0 (Windows NT 10.0; Win64; x64) AppleWebKit/537.36''"

definition extractWithTimedTextAPI :: "World \<Rightarrow> string \<Rightarrow> CaptionResult option io" where
  "extractWithTimedTextAPI w videoId =
     io_catch
       (io_bind (io_log (Banner StrategyC)) (\<lambda>_.
        io_bind (httpGet w \<lparr>req_url = watchUrl videoId, req_userAgent = Some browserIdentity\<rparr>)
          (\<lambda>pageResponse.
        if \<not> ok pageResponse then io_return None
        else io_bind (io_lift (body pageResponse)) (\<lambda>html.
        case searchTracks False html of
          None \<Rightarrow>
            (case searchAltTracks html of
               None \<Rightarrow> io_return None
             | Some m \<Rightarrow> parseCaptionTracks w m)
        | Some m \<Rightarrow> parseCaptionTracks w m))))
       (\<lambda>error. io_return None)"

section \<open>Strategy D: the fixed list of language codes\<close>

definition languages :: "(string \<times> string) list" where
  "languages =
     [(''en'', ''English''), (''a.en'', ''English (auto)''), (''en-US'', ''English (US)''),
      (''en-GB'', ''English (GB)'')]"

definition attemptLanguage :: "World \<Rightarrow> string \<Rightarrow> string \<Rightarrow> CaptionResult option io" where
  "attemptLanguage w videoId code =
     io_bind (httpGet w \<lparr>req_url = timedTextUrl videoId code ''srv3'', req_userAgent = None\<rparr>)
       (\<lambda>response.
     if \<not> ok response then io_return None
     else io_bind (io_lift (body response)) (\<lambda>xml.
     if length xml < 100 \<or> includesStr xml ''error'' then io_return None
     else if textMatches xml = [] then io_return None
     else let text = decodeMarkupB xml in
       if length text < 50 then io_return None
       else io_return (Some \<lparr>transcript = text, source = ''captions'', language = code,
                               method_id = ''language-fallback''\<rparr>)))"

fun tryLanguages :: "World \<Rightarrow> string \<Rightarrow> (string \<times> string) list \<Rightarrow> CaptionResult option io" where
  "tryLanguages w videoId [] = io_return None"
| "tryLanguages w videoId (lang # rest) =
     io_bind (io_catch (attemptLanguage w videoId (fst lang)) (\<lambda>error. io_return None))
       (\<lambda>r. case r of
               Some result \<Rightarrow> io_return (Some result)
             | None \<Rightarrow> tryLanguages w videoId rest)"

definition extractWithLanguageFallback :: "World \<Rightarrow> string \<Rightarrow> CaptionResult option io" where
  "extractWithLanguageFallback w videoId =
     io_catch
       (io_bind (io_log (Banner StrategyD)) (\<lambda>_. tryLanguages w videoId languages))
       (\<lambda>error. io_return None)"

section \<open>The orchestrator\<close>

text \<open>
  \<^verbatim>\<open>
  if (apiKey) {
    let result = await extractWithYouTubeDataAPI(videoId, apiKey);
    if (result) { ...; return result; }
  } else { console.log(`Skipping Method 1 (no API key provided)`); }
  let result = await extractWithYoutubeTranscript(videoId);
  if (result) { ...; return result; }
  result = await extractWithTimedTextAPI(videoId);
  if (result) { ...; return result; }
  result = await extractWithLanguageFallback(videoId);
  if (result) { ...; return result; }
  ...
  return null;
  \<close>
  The key is optional, and an empty string counts as absent (\<open>if (apiKey)\<close>).
\<close>

definition primaryStage ::
  "(string \<Rightarrow> QualityAssessment) \<Rightarrow> World \<Rightarrow> string \<Rightarrow> string option \<Rightarrow> CaptionResult option io" where
  "primaryStage analyze w videoId apiKey =
     (case apiKey of
        None \<Rightarrow> io_bind (io_log PrimarySkipped) (\<lambda>_. io_return None)
      | Some k \<Rightarrow>
          if k = [] then io_bind (io_log PrimarySkipped) (\<lambda>_. io_return None)
          else extractWithYouTubeDataAPI_with analyze w videoId k)"

definition succeed :: "Strategy \<Rightarrow> CaptionResult \<Rightarrow> CaptionResult option io" where
  \<comment> \<open>the success lines, then \<open>return result\<close>\<close>
  "succeed which result = io_bind (io_log (Success which)) (\<lambda>_. io_return (Some result))"

definition extractCaptions_with ::
  "(string \<Rightarrow> QualityAssessment) \<Rightarrow> World \<Rightarrow> string \<Rightarrow> string option \<Rightarrow> CaptionResult option io" where
  "extractCaptions_with analyze w videoId apiKey =
     io_bind (primaryStage analyze w videoId apiKey) (\<lambda>r1.
     case r1 of
       Some result \<Rightarrow> succeed StrategyA result
     | None \<Rightarrow>
     io_bind (extractWithYoutubeTranscript_with analyze w videoId) (\<lambda>r2.
     case r2 of
       Some result \<Rightarrow> succeed StrategyB result
     | None \<Rightarrow>
     io_bind (extractWithTimedTextAPI w videoId) (\<lambda>r3.
     case r3 of
       Some result \<Rightarrow> succeed StrategyC result
     | None \<Rightarrow>
     io_bind (extractWithLanguageFallback w videoId) (\<lambda>r4.
     case r4 of
       Some result \<Rightarrow> succeed StrategyD result
     | None \<Rightarrow> io_bind (io_log AllFailed) (\<lambda>_. io_return None)))))"

definition extractCaptions :: "World \<Rightarrow> string \<Rightarrow> string option \<Rightarrow> CaptionResult option io" where
  "extractCaptions = extractCaptions_with analyzeTranscriptQuality"

section \<open>Notions used to state the properties\<close>

subsection \<open>Characters by their codes\<close>

definition wordCode :: "nat \<Rightarrow> bool" where
  \<comment> \<open>a digit, a letter of the basic alphabet or the underscore\<close>
  "wordCode n = ((48 \<le> n \<and> n \<le> 57) \<or> (65 \<le> n \<and> n \<le> 90) \<or> n = 95 \<or> (97 \<le> n \<and> n \<le> 122))"

definition spaceCode :: "nat \<Rightarrow> bool" where
  \<comment> \<open>TAB, LF, VT, FF, CR, the space and the no-break space\<close>
  "spaceCode n = ((9 \<le> n \<and> n \<le> 13) \<or> n = 32 \<or> n = 160)"

definition lowerCode :: "nat \<Rightarrow> nat" where
  \<comment> \<open>the code of the lower-case form: the letters \<open>A\<close> to \<open>Z\<close> (65 to 90) and the
      accented capitals 192 to 222, without the multiplication sign 215, move up by 32\<close>
  "lowerCode n =
     (if (65 \<le> n \<and> n \<le> 90) \<or> (192 \<le> n \<and> n \<le> 222 \<and> n \<noteq> 215) then n + 32 else n)"

definition lowerCased :: "string \<Rightarrow> string" where
  "lowerCased s = map (\<lambda>c. char_of (lowerCode (of_char c))) s"

subsection \<open>Tokens and words of a text\<close>

fun splitOn :: "(char \<Rightarrow> bool) \<Rightarrow> string \<Rightarrow> string list" where
  \<comment> \<open>the pieces of a text between its separator characters, one piece more than separators\<close>
  "splitOn sep [] = [[]]"
| "splitOn sep (c # cs) =
     (if sep c then [] # splitOn sep cs
      else (case splitOn sep cs of [] \<Rightarrow> [[c]] | t # ts \<Rightarrow> (c # t) # ts))"

definition tokensOf :: "string \<Rightarrow> string list" where
  \<comment> \<open>the tokens of a text: its maximal runs of digits, letters and underscores\<close>
  "tokensOf s = filter (\<lambda>t. t \<noteq> []) (splitOn (\<lambda>c. \<not> wordCode (of_char c)) s)"

definition firstPersonTokens :: "string \<Rightarrow> nat" where
  \<comment> \<open>how many tokens of the lower-cased text are one of the six first-person pronouns\<close>
  "firstPersonTokens text =
     length (filter (\<lambda>t. t \<in> set [''i'', ''we'', ''my'', ''our'', ''me'', ''us''])
       (tokensOf (lowerCased text)))"

definition wordCount :: "string \<Rightarrow> nat" where
  \<comment> \<open>the number of white-space-separated words: the maximal runs of characters that are
      not white space\<close>
  "wordCount text =
     length (filter (\<lambda>t. t \<noteq> []) (splitOn (\<lambda>c. spaceCode (of_char c)) text))"

definition pieceCount :: "string \<Rightarrow> nat" where
  \<comment> \<open>the words, and one more when the text is empty or starts with white space, and one
      more when it ends with white space\<close>
  "pieceCount text =
     wordCount text
       + (if text = [] \<or> spaceCode (of_char (hd text)) then 1 else 0)
       + (if text \<noteq> [] \<and> spaceCode (of_char (last text)) then 1 else 0)"

definition leadingSpaceText :: string where
  \<comment> \<open>a space, the pronoun \<open>i\<close> and 48 further words: 49 words\<close>
  "leadingSpaceText =
     '' i x x x x x x x x x x x x x x x x x x x x x x x x x x x x x x x x x x x x x x x x x x x x x x x x''"

text \<open>
  The same runs over the character classes of the regular expressions, and the count of
  the pronouns of the analyzer, as the proofs use them.
\<close>

definition wordTokens :: "string \<Rightarrow> string list" where
  "wordTokens s = filter (\<lambda>t. t \<noteq> []) (splitOn (\<lambda>c. \<not> isWordChar c) s)"

definition pronounTokens :: "string \<Rightarrow> nat" where
  "pronounTokens s = length (filter (\<lambda>t. t \<in> set pronouns) (wordTokens s))"

definition countIn :: "string list \<Rightarrow> nat" where
  "countIn xs = length (filter (\<lambda>t. t \<in> set pronouns) xs)"

definition wordsOf :: "string \<Rightarrow> string list" where
  "wordsOf s = filter (\<lambda>t. t \<noteq> []) (splitOn isSpace s)"

subsection \<open>Shapes of an identifier input\<close>

definition stopChar :: "char \<Rightarrow> bool" where
  \<comment> \<open>the characters that end the token behind a URL marker\<close>
  "stopChar c = (c = CHR ''&'' \<or> c = CHR 0x0A \<or> c = CHR ''?'' \<or> c = CHR ''#'')"

definition urlMatch :: "string \<Rightarrow> string \<Rightarrow> string \<Rightarrow> string \<Rightarrow> bool" where
  \<comment> \<open>an occurrence of a URL shape: \<open>url\<close> is \<open>pre\<close>, then the marker \<open>m\<close>, then \<open>rest\<close>,
      and \<open>rest\<close> starts with a character of a token\<close>
  "urlMatch url pre m rest =
     (m \<in> set [''youtube.com/watch?v='', ''youtu.be/'', ''youtube.com/embed/'']
      \<and> url = pre @ m @ rest \<and> rest \<noteq> [] \<and> \<not> stopChar (hd rest))"

definition bareToken :: "string \<Rightarrow> bool" where
  \<comment> \<open>exactly 11 characters, each a letter, a digit, \<open>_\<close> or \<open>-\<close> (code 45)\<close>
  "bareToken s = (length s = 11 \<and> list_all (\<lambda>c. wordCode (of_char c) \<or> of_char c = (45 :: nat)) s)"

subsection \<open>Runs of the extractor\<close>

definition returns :: "'a io \<Rightarrow> ('a \<Rightarrow> bool) \<Rightarrow> bool" where
  \<comment> \<open>every value the computation returns satisfies \<open>P\<close>\<close>
  "returns m P = (\<forall>s x s'. m s = (Inr x, s') \<longrightarrow> P x)"

definition accepted :: "nat \<Rightarrow> CaptionResult option \<Rightarrow> bool" where
  "accepted n r =
     (case r of
        None \<Rightarrow> True
      | Some res \<Rightarrow> source res = ''captions'' \<and> n \<le> length (transcript res))"

definition nothrow :: "'a io \<Rightarrow> bool" where
  \<comment> \<open>from every session the computation returns a value\<close>
  "nothrow m = (\<forall>s. \<exists>x s'. m s = (Inr x, s'))"

definition emits :: "'a io \<Rightarrow> (Event \<Rightarrow> bool) \<Rightarrow> bool" where
  \<comment> \<open>the computation only appends to the trace, and only events of the class \<open>A\<close>\<close>
  "emits m A = (\<forall>s. \<exists>evs. trace (snd (m s)) = trace s @ evs \<and> list_all A evs)"

fun primaryEvent :: "Event \<Rightarrow> bool" where
  \<comment> \<open>the events of the primary strategy: its banner, requests without a browser identity,
      quality reports\<close>
  "primaryEvent (Banner which) = (which = StrategyA)"
| "primaryEvent (Fetched req) = (req_userAgent req = None)"
| "primaryEvent (QualityReport q) = True"
| "primaryEvent ev = False"

definition anyEvent :: "Event \<Rightarrow> bool" where
  "anyEvent ev = True"

fun isReport :: "Event \<Rightarrow> bool" where
  "isReport (QualityReport q) = True"
| "isReport ev = False"

definition similar :: "Session \<Rightarrow> Session \<Rightarrow> bool" where
  \<comment> \<open>the same moment and, the quality reports left out, the same trace\<close>
  "similar s s' =
     (tick s = tick s'
      \<and> filter (\<lambda>ev. \<not> isReport ev) (trace s) = filter (\<lambda>ev. \<not> isReport ev) (trace s'))"

definition agree :: "'a io \<Rightarrow> 'a io \<Rightarrow> bool" where
  \<comment> \<open>started in similar sessions, two computations end with the same outcome in similar
      sessions\<close>
  "agree m m' =
     (\<forall>s s'. similar s s' \<longrightarrow> fst (m s) = fst (m' s') \<and> similar (snd (m s)) (snd (m' s')))"

subsection \<open>Sample worlds\<close>

definition freshSession :: Session where
  "freshSession = \<lparr>tick = 0, trace = []\<rparr>"

definition sampleXml :: string where
  "sampleXml = ''<?xml version=\"1.0\" encoding=\"utf-8\" ?><transcript><text start=\"0\" dur=\"2\">Hello everyone &amp; welcome back to the channel</text><text start=\"2\" dur=\"3\">today we look at caption extraction</text></transcript>''"

definition sampleText :: string where
  "sampleText = ''Hello everyone & welcome back to the channel today we look at caption extraction''"

definition sampleResult :: CaptionResult where
  "sampleResult = \<lparr>transcript = sampleText, source = ''captions'', language = ''en'',
                    method_id = ''youtube-data-api-asr''\<rparr>"

definition frenchStandard :: Track where
  "frenchStandard =
     \<lparr>snippet_language = ''fr'', snippet_trackKind = ''standard'', snippet_name = ''French''\<rparr>"

definition englishAuto :: Track where
  "englishAuto =
     \<lparr>snippet_language = ''en'', snippet_trackKind = ''asr'',
      snippet_name = ''English (auto-generated)''\<rparr>"

definition englishStandard :: Track where
  "englishStandard =
     \<lparr>snippet_language = ''en'', snippet_trackKind = ''standard'', snippet_name = ''English''\<rparr>"

definition sampleTracks :: "Track list" where
  "sampleTracks = [frenchStandard, englishAuto]"

definition labelled :: "string \<Rightarrow> string \<Rightarrow> CaptionResult option \<Rightarrow> bool" where
  \<comment> \<open>a result of the primary strategy names the language and the kind of its track\<close>
  "labelled lang kind r =
     (case r of
        None \<Rightarrow> True
      | Some res \<Rightarrow> language res = lang \<and> method_id res = ''youtube-data-api-'' @ kind)"

definition captionedWorld :: World where
  \<comment> \<open>a video with a French standard track and an English automatic track; the \<open>srv3\<close>
      payload of the English track is \<open>sampleXml\<close>\<close>
  "captionedWorld =
     \<lparr>fetch = (\<lambda>n req.
        if req_url req = captionsListUrl ''abcDEF12345'' ''KEY''
        then Inr \<lparr>ok = True, status = 200, body = Inr ''{...}''\<rparr>
        else if req_url req = timedTextUrl ''abcDEF12345'' ''en'' ''srv3''
        then Inr \<lparr>ok = True, status = 200, body = Inr sampleXml\<rparr>
        else Inl (Error ''fetch failed'')),
      parseListing = (\<lambda>t. Inr \<lparr>items = Some sampleTracks\<rparr>),
      parseJson3 = (\<lambda>t. Inl (Error ''SyntaxError'')),
      parsePageTracks = (\<lambda>t. Inl (Error ''SyntaxError'')),
      importPackage = (\<lambda>n. Inr ()),
      fetchTranscript = (\<lambda>n v l. Inl (Error ''Transcript is disabled on this video''))\<rparr>"

definition noCaptionsWorld :: World where
  \<comment> \<open>a video without caption tracks: the listing is empty, the package finds no
      transcript, the page names no track and the content endpoint answers with an empty
      body\<close>
  "noCaptionsWorld =
     \<lparr>fetch = (\<lambda>n req.
        if req_url req = watchUrl ''abcDEF12345''
        then Inr \<lparr>ok = True, status = 200, body = Inr ''<html><body></body></html>''\<rparr>
        else Inr \<lparr>ok = True, status = 200, body = Inr ''''\<rparr>),
      parseListing = (\<lambda>t. Inr \<lparr>items = Some []\<rparr>),
      parseJson3 = (\<lambda>t. Inl (Error ''SyntaxError'')),
      parsePageTracks = (\<lambda>t. Inl (Error ''SyntaxError'')),
      importPackage = (\<lambda>n. Inr ()),
      fetchTranscript = (\<lambda>n v l. Inl (Error ''Transcript is disabled on this video''))\<rparr>"

definition packageWorld :: "(exn + Cue list option) \<Rightarrow> (exn + Cue list option) \<Rightarrow> World" where
  \<comment> \<open>only the transcript package answers: \<open>english\<close> to the request for English cues,
      \<open>anyLanguage\<close> to the request without a language\<close>
  "packageWorld english anyLanguage =
     \<lparr>fetch = (\<lambda>n req. Inl (Error ''fetch failed'')),
      parseListing = (\<lambda>t. Inl (Error ''SyntaxError'')),
      parseJson3 = (\<lambda>t. Inl (Error ''SyntaxError'')),
      parsePageTracks = (\<lambda>t. Inl (Error ''SyntaxError'')),
      importPackage = (\<lambda>n. Inr ()),
      fetchTranscript = (\<lambda>n v l. case l of Some code \<Rightarrow> english | None \<Rightarrow> anyLanguage)\<rparr>"

definition fiftyCues :: "Cue list" where
  \<comment> \<open>one cue of exactly 50 characters\<close>
  "fiftyCues =
     [\<lparr>cueText = ''The quick brown fox jumps over the lazy dog today.'', offset = 0, duration = 4\<rparr>]"

definition frenchCues :: "Cue list" where
  "frenchCues =
     [\<lparr>cueText = ''Bonjour tout le monde et bienvenue sur la chaine'', offset = 0, duration = 3\<rparr>,
      \<lparr>cueText = ''nous parlons des sous-titres automatiques'', offset = 3, duration = 3\<rparr>]"

definition lowAnalyzer :: "string \<Rightarrow> QualityAssessment" where
  \<comment> \<open>an analyzer that reports every text as not spoken\<close>
  "lowAnalyzer t = \<lparr>likelySpoken = False, confidence = ''LOW'', reason = ''rejected''\<rparr>"

lemmas io_defs = io_bind_def io_catch_def io_return_def io_throw_def io_lift_def io_log_def
  io_await_def httpGet_def

section \<open>Character classes and character codes\<close>

lemma char_class_codes:
  "map of_char cs = (ns :: nat list) \<Longrightarrow> c \<in> set cs \<longleftrightarrow> of_char c \<in> set ns"
  by (auto dest: injD [OF inj_of_char])

lemma isWordChar_code: "isWordChar c = wordCode (of_char c)"
proof -
  have "map of_char ''ABCDEFGHIJKLMNOPQRSTUVWXYZabcdefghijklmnopqrstuvwxyz0123456789_''
      = ([65..<91] @ [97..<123] @ [48..<58] @ [95] :: nat list)"
    by (simp add: upt_rec)
  from char_class_codes [OF this]
  have "isWordChar c \<longleftrightarrow> (of_char c :: nat) \<in> set ([65..<91] @ [97..<123] @ [48..<58] @ [95])"
    by (simp only: isWordChar_def)
  also have "\<dots> \<longleftrightarrow> wordCode (of_char c)"
    by (simp only: wordCode_def set_append set_upt Un_iff atLeastLessThan_iff list.set
          insert_iff empty_iff) arith
  finally show ?thesis .
qed

lemma isSpace_code: "isSpace c = spaceCode (of_char c)"
proof -
  have "map of_char [CHR 0x09, CHR 0x0A, CHR 0x0B, CHR 0x0C, CHR 0x0D, CHR '' '', CHR 0xA0]
      = ([9..<14] @ [32, 160] :: nat list)"
    by (simp add: upt_rec)
  from char_class_codes [OF this]
  have "isSpace c \<longleftrightarrow> (of_char c :: nat) \<in> set ([9..<14] @ [32, 160])"
    by (simp only: isSpace_def)
  also have "\<dots> \<longleftrightarrow> spaceCode (of_char c)"
    by (simp only: spaceCode_def set_append set_upt Un_iff atLeastLessThan_iff list.set
          insert_iff empty_iff) arith
  finally show ?thesis .
qed

lemma idChar_code: "idChar c \<longleftrightarrow> wordCode (of_char c) \<or> of_char c = (45 :: nat)"
proof -
  have "map of_char ''abcdefghijklmnopqrstuvwxyzABCDEFGHIJKLMNOPQRSTUVWXYZ0123456789_-''
      = ([97..<123] @ [65..<91] @ [48..<58] @ [95, 45] :: nat list)"
    by (simp add: upt_rec)
  from char_class_codes [OF this]
  have "idChar c \<longleftrightarrow> (of_char c :: nat) \<in> set ([97..<123] @ [65..<91] @ [48..<58] @ [95, 45])"
    by (simp only: idChar_def)
  also have "\<dots> \<longleftrightarrow> wordCode (of_char c) \<or> of_char c = (45 :: nat)"
    by (simp only: wordCode_def set_append set_upt Un_iff atLeastLessThan_iff list.set
          insert_iff empty_iff) arith
  finally show ?thesis .
qed

lemma stopChar_idStop: "stopChar c = idStop c"
  by (simp add: idStop_def stopChar_def)

lemma upper_codes:
  "(65 \<le> n \<and> n \<le> 90) \<or> (192 \<le> n \<and> n \<le> 222 \<and> n \<noteq> 215) \<longleftrightarrow>
     (n::nat) \<in> set ([65..<91] @ [192..<215] @ [216..<223])"
  by (simp only: set_append set_upt Un_iff atLeastLessThan_iff) arith

lemma toLowerChar_code: "of_char (toLowerChar c) = lowerCode (of_char c)"
proof -
  define U where "U = ''ABCDEFGHIJKLMNOPQRSTUVWXYZ'' @
         [CHR 0xC0, CHR 0xC1, CHR 0xC2, CHR 0xC3, CHR 0xC4, CHR 0xC5, CHR 0xC6, CHR 0xC7,
          CHR 0xC8, CHR 0xC9, CHR 0xCA, CHR 0xCB, CHR 0xCC, CHR 0xCD, CHR 0xCE, CHR 0xCF,
          CHR 0xD0, CHR 0xD1, CHR 0xD2, CHR 0xD3, CHR 0xD4, CHR 0xD5, CHR 0xD6,
          CHR 0xD8, CHR 0xD9, CHR 0xDA, CHR 0xDB, CHR 0xDC, CHR 0xDD, CHR 0xDE]"
  define L where "L = ''abcdefghijklmnopqrstuvwxyz'' @
         [CHR 0xE0, CHR 0xE1, CHR 0xE2, CHR 0xE3, CHR 0xE4, CHR 0xE5, CHR 0xE6, CHR 0xE7,
          CHR 0xE8, CHR 0xE9, CHR 0xEA, CHR 0xEB, CHR 0xEC, CHR 0xED, CHR 0xEE, CHR 0xEF,
          CHR 0xF0, CHR 0xF1, CHR 0xF2, CHR 0xF3, CHR 0xF4, CHR 0xF5, CHR 0xF6,
          CHR 0xF8, CHR 0xF9, CHR 0xFA, CHR 0xFB, CHR 0xFC, CHR 0xFD, CHR 0xFE]"
  let ?upper = "\<lambda>n::nat. (65 \<le> n \<and> n \<le> 90) \<or> (192 \<le> n \<and> n \<le> 222 \<and> n \<noteq> 215)"
  have lower: "toLowerChar c = (case map_of (zip U L) c of Some l \<Rightarrow> l | None \<Rightarrow> c)"
    unfolding toLowerChar_def U_def L_def ..
  have codes: "map of_char U = ([65..<91] @ [192..<215] @ [216..<223] :: nat list)"
    unfolding U_def by (simp add: upt_rec)
  have shift: "list_all2 (\<lambda>u l. (of_char l :: nat) = of_char u + 32) U L"
    unfolding U_def L_def by simp
  have len: "length U = length L"
    using shift by (rule list_all2_lengthD)
  have upper: "?upper (of_char d) \<longleftrightarrow> d \<in> set U" for d
    using char_class_codes [OF codes, of d] upper_codes [of "of_char d"] by simp
  show ?thesis
  proof (cases "map_of (zip U L) c")
    case None
    with len have "c \<notin> set U" by (simp add: map_of_zip_is_None)
    with upper [of c] have "\<not> ?upper (of_char c)" by simp
    with None lower show ?thesis by (simp add: lowerCode_def)
  next
    case (Some l)
    then have mem: "(c, l) \<in> set (zip U L)" by (rule map_of_SomeD)
    with shift have "(of_char l :: nat) = of_char c + 32"
      by (auto simp: list_all2_iff)
    moreover from mem have "c \<in> set U" by (rule set_zip_leftD)
    with upper [of c] have "?upper (of_char c)" by simp
    ultimately show ?thesis using Some lower by (simp add: lowerCode_def)
  qed
qed

lemma toLowerCase_lowerCased: "toLowerCase s = lowerCased s"
proof -
  have "toLowerChar c = char_of (lowerCode (of_char c))" for c
    using toLowerChar_code [of c, symmetric] by (simp del: of_char_of)
  then show ?thesis by (simp add: toLowerCase_def lowerCased_def)
qed

lemma tokensOf_wordTokens: "tokensOf s = wordTokens s"
  by (simp add: tokensOf_def wordTokens_def isWordChar_code)

lemma wordCount_wordsOf: "wordCount s = length (wordsOf s)"
  by (simp add: wordCount_def wordsOf_def isSpace_code [abs_def])

lemma takeWhile_run:
  "list_all P p \<Longrightarrow> rest = [] \<or> \<not> P (hd rest) \<Longrightarrow>
     takeWhile P (p @ rest) = p \<and> dropWhile P (p @ rest) = rest"
proof (induction p)
  case Nil
  then show ?case by (cases rest) auto
next
  case (Cons a p)
  then show ?case by simp
qed

section \<open>Properties of the identifier parser\<close>

lemma matchIdAfter_Some:
  "matchIdAfter ms s = Some v \<Longrightarrow>
     \<exists>m rest. m \<in> set ms \<and> s = m @ v @ rest \<and> v \<noteq> [] \<and> (\<forall>c\<in>set v. \<not> idStop c)
        \<and> (rest = [] \<or> idStop (hd rest))"
proof (induction ms)
  case Nil
  then show ?case by simp
next
  case (Cons m ms)
  let ?t = "drop (length m) s"
  let ?v = "takeWhile (\<lambda>c. \<not> idStop c) ?t"
  show ?case
  proof (cases "prefix m s \<and> ?v \<noteq> []")
    case True
    then have v: "v = ?v" using Cons.prems by simp
    from True obtain t where s: "s = m @ t" by (auto simp: prefix_def)
    then have t: "?t = t" by simp
    have split: "t = ?v @ dropWhile (\<lambda>c. \<not> idStop c) t"
      using t by simp
    have stop: "dropWhile (\<lambda>c. \<not> idStop c) t = [] \<or> idStop (hd (dropWhile (\<lambda>c. \<not> idStop c) t))"
      using hd_dropWhile [of "\<lambda>c. \<not> idStop c" t] by auto
    have clean: "\<forall>c\<in>set ?v. \<not> idStop c"
      by (auto dest: set_takeWhileD)
    show ?thesis
      apply (rule exI [of _ m])
      apply (rule exI [of _ "dropWhile (\<lambda>c. \<not> idStop c) t"])
      using True v s split stop clean by auto
  next
    case False
    then have "matchIdAfter ms s = Some v" using Cons.prems by auto
    from Cons.IH [OF this] show ?thesis by auto
  qed
qed

lemma matchIdAfter_None:
  "matchIdAfter ms s = None \<longleftrightarrow>
     \<not> (\<exists>m rest. m \<in> set ms \<and> s = m @ rest \<and> rest \<noteq> [] \<and> \<not> idStop (hd rest))"
proof (induction ms)
  case Nil
  then show ?case by simp
next
  case (Cons m ms)
  have here: "(prefix m s \<and> takeWhile (\<lambda>c. \<not> idStop c) (drop (length m) s) \<noteq> []) \<longleftrightarrow>
     (\<exists>rest. s = m @ rest \<and> rest \<noteq> [] \<and> \<not> idStop (hd rest))"
  proof
    assume a: "prefix m s \<and> takeWhile (\<lambda>c. \<not> idStop c) (drop (length m) s) \<noteq> []"
    then obtain t where s: "s = m @ t" by (auto simp: prefix_def)
    with a have "takeWhile (\<lambda>c. \<not> idStop c) t \<noteq> []" by simp
    then have "t \<noteq> [] \<and> \<not> idStop (hd t)" by (cases t) (auto split: if_splits)
    with s show "\<exists>rest. s = m @ rest \<and> rest \<noteq> [] \<and> \<not> idStop (hd rest)" by blast
  next
    assume "\<exists>rest. s = m @ rest \<and> rest \<noteq> [] \<and> \<not> idStop (hd rest)"
    then obtain t where s: "s = m @ t" and t: "t \<noteq> []" "\<not> idStop (hd t)" by blast
    from t have "takeWhile (\<lambda>c. \<not> idStop c) t \<noteq> []" by (cases t) auto
    with s show "prefix m s \<and> takeWhile (\<lambda>c. \<not> idStop c) (drop (length m) s) \<noteq> []" by simp
  qed
  show ?case
  proof (cases "prefix m s \<and> takeWhile (\<lambda>c. \<not> idStop c) (drop (length m) s) \<noteq> []")
    case True
    with here show ?thesis by auto
  next
    case False
    then have "matchIdAfter (m # ms) s = matchIdAfter ms s" by auto
    with False here Cons.IH show ?thesis by auto
  qed
qed

lemma searchUrlId_Some:
  "searchUrlId s = Some v \<Longrightarrow>
     \<exists>pre m rest. m \<in> set urlMarkers \<and> s = pre @ m @ v @ rest \<and> v \<noteq> []
        \<and> (\<forall>c\<in>set v. \<not> idStop c) \<and> (rest = [] \<or> idStop (hd rest))"
proof (induction s)
  case Nil
  from matchIdAfter_Some [of urlMarkers "[]" v] Nil show ?case by auto
next
  case (Cons c cs)
  show ?case
  proof (cases "matchIdAfter urlMarkers (c # cs)")
    case None
    with Cons.prems have "searchUrlId cs = Some v" by simp
    from Cons.IH [OF this] obtain pre m rest where
      "m \<in> set urlMarkers" "cs = pre @ m @ v @ rest" "v \<noteq> []"
      "\<forall>c\<in>set v. \<not> idStop c" "rest = [] \<or> idStop (hd rest)" by blast
    then show ?thesis
      by (intro exI [of _ "c # pre"] exI [of _ m] exI [of _ rest]) simp
  next
    case (Some u)
    with Cons.prems have "matchIdAfter urlMarkers (c # cs) = Some v" by simp
    from matchIdAfter_Some [OF this] obtain m rest where
      "m \<in> set urlMarkers" "c # cs = m @ v @ rest" "v \<noteq> []"
      "\<forall>c\<in>set v. \<not> idStop c" "rest = [] \<or> idStop (hd rest)" by blast
    then show ?thesis
      by (intro exI [of _ "[]"] exI [of _ m] exI [of _ rest]) simp
  qed
qed

lemma searchUrlId_None:
  "searchUrlId s = None \<longleftrightarrow>
     \<not> (\<exists>pre m rest. m \<in> set urlMarkers \<and> s = pre @ m @ rest \<and> rest \<noteq> [] \<and> \<not> idStop (hd rest))"
proof (induction s)
  case Nil
  show ?case using matchIdAfter_None [of urlMarkers "[]"] by auto
next
  case (Cons c cs)
  have split: "(\<exists>pre m rest. m \<in> set urlMarkers \<and> c # cs = pre @ m @ rest \<and> rest \<noteq> [] \<and> \<not> idStop (hd rest))
     \<longleftrightarrow> (\<exists>m rest. m \<in> set urlMarkers \<and> c # cs = m @ rest \<and> rest \<noteq> [] \<and> \<not> idStop (hd rest))
       \<or> (\<exists>pre m rest. m \<in> set urlMarkers \<and> cs = pre @ m @ rest \<and> rest \<noteq> [] \<and> \<not> idStop (hd rest))"
    (is "?L \<longleftrightarrow> ?H \<or> ?T")
  proof
    assume ?L
    then obtain pre m rest where
      h: "m \<in> set urlMarkers" "c # cs = pre @ m @ rest" "rest \<noteq> []" "\<not> idStop (hd rest)" by blast
    show "?H \<or> ?T"
    proof (cases pre)
      case Nil
      with h show ?thesis by auto
    next
      case (Cons p ps)
      with h have "cs = ps @ m @ rest" by simp
      with h show ?thesis by blast
    qed
  next
    assume "?H \<or> ?T"
    then show ?L
    proof
      assume ?H
      then obtain m rest where
        "m \<in> set urlMarkers" "c # cs = [] @ m @ rest" "rest \<noteq> []" "\<not> idStop (hd rest)" by auto
      then show ?L by blast
    next
      assume ?T
      then obtain pre m rest where
        "m \<in> set urlMarkers" "c # cs = (c # pre) @ m @ rest" "rest \<noteq> []" "\<not> idStop (hd rest)"
        by auto
      then show ?L by blast
    qed
  qed
  show ?case
  proof (cases "matchIdAfter urlMarkers (c # cs)")
    case None
    then have "\<not> ?H" using matchIdAfter_None [of urlMarkers "c # cs"] by simp
    moreover from None have "searchUrlId (c # cs) = searchUrlId cs" by simp
    ultimately show ?thesis using Cons.IH split by simp
  next
    case (Some u)
    then have ?H using matchIdAfter_None [of urlMarkers "c # cs"] by simp
    with Some split show ?thesis by simp
  qed
qed


text \<open>
  C9. The short link \<open>https://youtu.be/abcDEF12345\<close>, the watch link
  \<open>https://www.youtube.com/watch?v=abcDEF12345\<close> and the bare token \<open>abcDEF12345\<close> are all
  accepted by the identifier parser, and all three give the same id \<open>abcDEF12345\<close>, which has
  11 characters.
\<close>

theorem extractVideoId_canonicalization:
  "extractVideoId ''https://youtu.be/abcDEF12345'' = Some ''abcDEF12345''
   \<and> extractVideoId ''https://www.youtube.com/watch?v=abcDEF12345'' = Some ''abcDEF12345''
   \<and> extractVideoId ''abcDEF12345'' = Some ''abcDEF12345''
   \<and> length ''abcDEF12345'' = 11"
  by (simp add: extractVideoId_def urlMarkers_def idStop_def matchBareId_def idChar_def)

text \<open>
  C6, as stated, fails: the capture group of the URL pattern is \<open>[^&\n?#]+\<close>, a run of any
  length. The short link \<open>https://youtu.be/abc\<close> is accepted and the parser returns the
  three-character token \<open>abc\<close>.
\<close>

theorem extractVideoId_short_token:
  "extractVideoId ''https://youtu.be/abc'' = Some ''abc'' \<and> length ''abc'' \<noteq> 11"
  by (simp add: extractVideoId_def urlMarkers_def idStop_def matchBareId_def idChar_def)

text \<open>
  An occurrence of a URL shape in the terms of the parser, and the facts that single out
  the one the parser takes: the leftmost occurrence, its marker and the whole run behind
  it.
\<close>

lemma urlMatch_markers:
  "urlMatch url pre m rest \<longleftrightarrow>
     m \<in> set urlMarkers \<and> url = pre @ m @ rest \<and> rest \<noteq> [] \<and> \<not> idStop (hd rest)"
  by (simp add: urlMatch_def urlMarkers_def stopChar_idStop)

lemma bareToken_idChar: "bareToken s \<longleftrightarrow> length s = 11 \<and> list_all idChar s"
  by (simp add: bareToken_def idChar_code [abs_def])

lemma searchUrlId_None_match: "searchUrlId s = None \<longleftrightarrow> (\<forall>pre m rest. \<not> urlMatch s pre m rest)"
  unfolding searchUrlId_None urlMatch_markers by blast

lemma matchIdAfter_None_match:
  "matchIdAfter urlMarkers s = None \<longleftrightarrow> (\<forall>m rest. \<not> urlMatch s [] m rest)"
  unfolding matchIdAfter_None urlMatch_markers by auto

lemma searchUrlId_leftmost:
  "searchUrlId s = Some v \<Longrightarrow>
     \<exists>pre m rest. m \<in> set urlMarkers \<and> s = pre @ m @ v @ rest \<and> v \<noteq> []
        \<and> list_all (\<lambda>c. \<not> idStop c) v \<and> (rest = [] \<or> idStop (hd rest))
        \<and> (\<forall>pre' m' rest'. urlMatch s pre' m' rest' \<longrightarrow> length pre \<le> length pre')"
proof (induction s)
  case Nil
  from matchIdAfter_Some [of urlMarkers "[]" v] Nil show ?case by auto
next
  case (Cons c cs)
  show ?case
  proof (cases "matchIdAfter urlMarkers (c # cs)")
    case None
    with Cons.prems have "searchUrlId cs = Some v" by simp
    from Cons.IH [OF this] obtain pre m rest where
      h: "m \<in> set urlMarkers" "cs = pre @ m @ v @ rest" "v \<noteq> []"
      "list_all (\<lambda>c. \<not> idStop c) v" "rest = [] \<or> idStop (hd rest)"
      and left: "\<forall>pre' m' rest'. urlMatch cs pre' m' rest' \<longrightarrow> length pre \<le> length pre'"
      by blast
    have "length (c # pre) \<le> length pre'" if u: "urlMatch (c # cs) pre' m' rest'" for pre' m' rest'
    proof (cases pre')
      case Nil
      with u None show ?thesis using matchIdAfter_None_match [of "c # cs"] by simp
    next
      case (Cons p ps)
      with u have "urlMatch cs ps m' rest'" by (simp add: urlMatch_markers)
      with left have "length pre \<le> length ps" by blast
      with Cons show ?thesis by simp
    qed
    with h show ?thesis
      by (intro exI [of _ "c # pre"] exI [of _ m] exI [of _ rest]) simp
  next
    case (Some u)
    with Cons.prems have "matchIdAfter urlMarkers (c # cs) = Some v" by simp
    from matchIdAfter_Some [OF this] obtain m rest where
      "m \<in> set urlMarkers" "c # cs = m @ v @ rest" "v \<noteq> []"
      "\<forall>c\<in>set v. \<not> idStop c" "rest = [] \<or> idStop (hd rest)" by blast
    then show ?thesis
      by (intro exI [of _ "[]"] exI [of _ m] exI [of _ rest]) (simp add: list_all_iff)
  qed
qed

lemma marker_unique:
  "m \<in> set urlMarkers \<Longrightarrow> m' \<in> set urlMarkers \<Longrightarrow> m @ x = m' @ y \<Longrightarrow> m = m'"
  by (auto simp: urlMarkers_def)

lemma run_unique:
  assumes "v @ rest = v' @ rest'"
    and "list_all P v" "rest = [] \<or> \<not> P (hd rest)"
    and "list_all P v'" "rest' = [] \<or> \<not> P (hd rest')"
  shows "v = v'"
proof -
  have "takeWhile P (v @ rest) = v" using takeWhile_run [OF assms(2,3)] by simp
  moreover have "takeWhile P (v' @ rest') = v'" using takeWhile_run [OF assms(4,5)] by simp
  ultimately show ?thesis using assms(1) by simp
qed

lemma bare_no_urlMatch:
  assumes "list_all idChar url"
  shows "\<not> urlMatch url pre m rest"
proof
  assume "urlMatch url pre m rest"
  then have m: "m \<in> set urlMarkers" and u: "url = pre @ m @ rest"
    by (simp_all add: urlMatch_markers)
  from m have "CHR ''/'' \<in> set m" by (auto simp: urlMarkers_def)
  with u have "CHR ''/'' \<in> set url" by simp
  with assms have "idChar CHR ''/''" by (simp add: list_all_iff)
  then show False by (simp add: idChar_def)
qed

lemma extractVideoId_cases:
  "(extractVideoId url = None \<longleftrightarrow>
      (\<forall>pre m rest. \<not> urlMatch url pre m rest) \<and> \<not> (length url = 11 \<and> list_all idChar url))
   \<and> (extractVideoId url = Some v \<longleftrightarrow>
        (\<exists>pre m rest. urlMatch url pre m (v @ rest)
            \<and> v \<noteq> [] \<and> list_all (\<lambda>c. \<not> idStop c) v \<and> (rest = [] \<or> idStop (hd rest))
            \<and> (\<forall>pre' m' rest'. urlMatch url pre' m' rest' \<longrightarrow> length pre \<le> length pre'))
        \<or> ((\<forall>pre m rest. \<not> urlMatch url pre m rest)
            \<and> v = url \<and> length url = 11 \<and> list_all idChar url))
   \<and> (length url = 11 \<and> list_all idChar url \<longrightarrow> (\<forall>pre m rest. \<not> urlMatch url pre m rest))"
proof (intro conjI)
  show "extractVideoId url = None \<longleftrightarrow>
      (\<forall>pre m rest. \<not> urlMatch url pre m rest) \<and> \<not> (length url = 11 \<and> list_all idChar url)"
    by (cases "searchUrlId url")
       (auto simp: extractVideoId_def matchBareId_def searchUrlId_None_match [symmetric])
next
  show "length url = 11 \<and> list_all idChar url \<longrightarrow> (\<forall>pre m rest. \<not> urlMatch url pre m rest)"
    using bare_no_urlMatch by blast
next
  let ?URL = "\<exists>pre m rest. urlMatch url pre m (v @ rest)
            \<and> v \<noteq> [] \<and> list_all (\<lambda>c. \<not> idStop c) v \<and> (rest = [] \<or> idStop (hd rest))
            \<and> (\<forall>pre' m' rest'. urlMatch url pre' m' rest' \<longrightarrow> length pre \<le> length pre')"
  let ?BARE = "(\<forall>pre m rest. \<not> urlMatch url pre m rest)
            \<and> v = url \<and> length url = 11 \<and> list_all idChar url"
  show "extractVideoId url = Some v \<longleftrightarrow> ?URL \<or> ?BARE"
  proof (cases "searchUrlId url")
    case None
    then have no: "\<forall>pre m rest. \<not> urlMatch url pre m rest"
      by (simp add: searchUrlId_None_match)
    then have "\<not> ?URL" by blast
    moreover from None have "extractVideoId url = Some v \<longleftrightarrow> ?BARE"
      using no by (auto simp: extractVideoId_def matchBareId_def)
    ultimately show ?thesis by blast
  next
    case (Some v0)
    then have res: "extractVideoId url = Some v0" by (simp add: extractVideoId_def)
    from searchUrlId_leftmost [OF Some] obtain pre0 m0 rest0 where
      h0: "m0 \<in> set urlMarkers" "url = pre0 @ m0 @ v0 @ rest0" "v0 \<noteq> []"
        "list_all (\<lambda>c. \<not> idStop c) v0" "rest0 = [] \<or> idStop (hd rest0)"
      and left0: "\<forall>pre' m' rest'. urlMatch url pre' m' rest' \<longrightarrow> length pre0 \<le> length pre'"
      by blast
    from h0 have hd0: "\<not> idStop (hd (v0 @ rest0))" by (cases v0) auto
    with h0 have match0: "urlMatch url pre0 m0 (v0 @ rest0)" by (simp add: urlMatch_markers)
    then have "\<not> ?BARE" by blast
    moreover have "?URL \<longleftrightarrow> v = v0"
    proof
      assume "v = v0"
      with match0 h0 left0 show ?URL by blast
    next
      assume ?URL
      then obtain pre m rest where
        h: "urlMatch url pre m (v @ rest)" "v \<noteq> []" "list_all (\<lambda>c. \<not> idStop c) v"
          "rest = [] \<or> idStop (hd rest)"
        and left: "\<forall>pre' m' rest'. urlMatch url pre' m' rest' \<longrightarrow> length pre \<le> length pre'"
        by blast
      from left match0 left0 h(1) have len: "length pre = length pre0" by (meson le_antisym)
      from h(1) have u: "url = pre @ m @ v @ rest" and m: "m \<in> set urlMarkers"
        by (simp_all add: urlMatch_markers)
      from u h0(2) len have "pre = pre0" "m @ v @ rest = m0 @ v0 @ rest0" by auto
      from marker_unique [OF m h0(1) this(2)] this(2) have "v @ rest = v0 @ rest0" by simp
      from run_unique [OF this, of "\<lambda>c. \<not> idStop c"] h(3,4) h0(4,5) show "v = v0" by auto
    qed
    ultimately show ?thesis using res by auto
  qed
qed

text \<open>
  C6, amended. An occurrence of a URL shape is one of the markers
  \<open>youtube.com/watch?v=\<close>, \<open>youtu.be/\<close>, \<open>youtube.com/embed/\<close> followed by a character other
  than \<open>&\<close>, newline, \<open>?\<close>, \<open>#\<close>. The parser returns null exactly when the input has no such
  occurrence and is not a bare token (exactly 11 letters, digits, \<open>_\<close> or \<open>-\<close>). It
  returns \<open>v\<close> exactly when either \<open>v\<close> is the whole run of characters other than \<open>&\<close>,
  newline, \<open>?\<close>, \<open>#\<close> behind the marker of the leftmost occurrence (a non-empty run of
  any length, ended by one of these characters or by the end of the input), or the input
  has no occurrence, is a bare token, and \<open>v\<close> is the input. A bare token has no
  occurrence of a URL shape, so the two cases exclude each other and the result is
  unique.
\<close>

theorem extractVideoId_shapes:
  "(extractVideoId url = None \<longleftrightarrow>
      (\<forall>pre m rest. \<not> urlMatch url pre m rest) \<and> \<not> bareToken url)
   \<and> (extractVideoId url = Some v \<longleftrightarrow>
        (\<exists>pre m rest. urlMatch url pre m (v @ rest)
            \<and> v \<noteq> [] \<and> list_all (\<lambda>c. \<not> stopChar c) v \<and> (rest = [] \<or> stopChar (hd rest))
            \<and> (\<forall>pre' m' rest'. urlMatch url pre' m' rest' \<longrightarrow> length pre \<le> length pre'))
        \<or> ((\<forall>pre m rest. \<not> urlMatch url pre m rest) \<and> v = url \<and> bareToken url))
   \<and> (bareToken url \<longrightarrow> (\<forall>pre m rest. \<not> urlMatch url pre m rest))"
  unfolding bareToken_idChar stopChar_idStop by (rule extractVideoId_cases)

text \<open>
  Two occurrences in one input: the token behind the leftmost one is returned. The bare
  token \<open>abcDEF12345\<close> has no occurrence of a URL shape and is returned itself, and
  \<open>not a link\<close> has neither shape.
\<close>

theorem extractVideoId_shapes_witness:
  "extractVideoId ''https://youtu.be/abcDEF12345?u=youtu.be/zzzzzzzzzzz'' = Some ''abcDEF12345''
   \<and> (\<exists>pre rest. ''https://youtu.be/abcDEF12345?u=youtu.be/zzzzzzzzzzz''
          = pre @ ''youtu.be/'' @ ''zzzzzzzzzzz'' @ rest)
   \<and> extractVideoId ''https://youtu.be/abcDEF12345?u=youtu.be/zzzzzzzzzzz'' \<noteq> Some ''zzzzzzzzzzz''
   \<and> bareToken ''abcDEF12345''
   \<and> (\<forall>pre m rest. \<not> urlMatch ''abcDEF12345'' pre m rest)
   \<and> extractVideoId ''abcDEF12345'' = Some ''abcDEF12345''
   \<and> extractVideoId ''not a link'' = None
   \<and> (\<forall>pre m rest. \<not> urlMatch ''not a link'' pre m rest)
   \<and> \<not> bareToken ''not a link''"
proof -
  have bare: "bareToken ''abcDEF12345''"
    by (simp add: bareToken_def wordCode_def)
  with extractVideoId_shapes [of "''abcDEF12345''" "''abcDEF12345''"]
  have b: "(\<forall>pre m rest. \<not> urlMatch ''abcDEF12345'' pre m rest)
      \<and> extractVideoId ''abcDEF12345'' = Some ''abcDEF12345''"
    by blast
  have "extractVideoId ''not a link'' = None"
    by (simp add: extractVideoId_def urlMarkers_def idStop_def matchBareId_def idChar_def)
  with extractVideoId_shapes [of "''not a link''" "''x''"]
  have n: "extractVideoId ''not a link'' = None
      \<and> (\<forall>pre m rest. \<not> urlMatch ''not a link'' pre m rest) \<and> \<not> bareToken ''not a link''"
    by blast
  have run: "extractVideoId ''https://youtu.be/abcDEF12345?u=youtu.be/zzzzzzzzzzz''
      = Some ''abcDEF12345''"
    by (simp add: extractVideoId_def urlMarkers_def idStop_def matchBareId_def idChar_def)
  have "''https://youtu.be/abcDEF12345?u=youtu.be/zzzzzzzzzzz''
      = ''https://youtu.be/abcDEF12345?u='' @ ''youtu.be/'' @ ''zzzzzzzzzzz'' @ []"
    by simp
  then have later: "\<exists>pre rest. ''https://youtu.be/abcDEF12345?u=youtu.be/zzzzzzzzzzz''
          = pre @ ''youtu.be/'' @ ''zzzzzzzzzzz'' @ rest"
    by blast
  from run have "extractVideoId ''https://youtu.be/abcDEF12345?u=youtu.be/zzzzzzzzzzz''
      \<noteq> Some ''zzzzzzzzzzz''"
    by simp
  with run later bare b n show ?thesis by blast
qed

section \<open>Properties of the pipeline\<close>

subsection \<open>Accepted results\<close>

lemma returnsD: "returns m P \<Longrightarrow> m s = (Inr x, s') \<Longrightarrow> P x"
  by (auto simp: returns_def)

lemma returns_return: "P x \<Longrightarrow> returns (io_return x) P"
  by (simp add: returns_def io_return_def)

lemma returns_throw: "returns (io_throw e) P"
  by (simp add: returns_def io_throw_def)

lemma returns_bind: "(\<And>x. returns (f x) P) \<Longrightarrow> returns (io_bind m f) P"
  by (auto simp: returns_def io_bind_def split: prod.splits sum.splits)

lemma returns_catch: "returns m P \<Longrightarrow> (\<And>e. returns (h e) P) \<Longrightarrow> returns (io_catch m h) P"
  by (auto simp: returns_def io_catch_def split: prod.splits sum.splits)

lemma accepted_None: "accepted n None" by (simp add: accepted_def)

lemma accepted_mono: "accepted n r \<Longrightarrow> m \<le> n \<Longrightarrow> accepted m r"
  by (auto simp: accepted_def split: option.splits)

lemma accepted_weaken: "accepted 51 r \<Longrightarrow> accepted 50 r"
  by (erule accepted_mono) simp

lemma attemptFormat_accepted:
  "returns (attemptFormat analyze w videoId lang kind fmt) (accepted 51)"
  unfolding attemptFormat_def
  by (auto intro!: returns_bind returns_return simp: accepted_def)

lemma returns_bind2:
  "returns m Q \<Longrightarrow> (\<And>x. Q x \<Longrightarrow> returns (f x) P) \<Longrightarrow> returns (io_bind m f) P"
  by (fastforce simp: returns_def io_bind_def split: prod.splits sum.splits)

lemma returns_first_success:
  "returns m (accepted n) \<Longrightarrow> returns k (accepted n) \<Longrightarrow>
   returns (io_bind m (\<lambda>r. case r of Some result \<Rightarrow> io_return (Some result) | None \<Rightarrow> k)) (accepted n)"
  by (rule returns_bind2 [where Q = "accepted n"])
     (auto intro: returns_return split: option.splits)

lemma tryFormats_accepted:
  "returns (tryFormats analyze w videoId lang kind fs) (accepted 51)"
proof (induction fs)
  case Nil
  show ?case by (simp add: returns_return accepted_None)
next
  case (Cons f fs)
  have "returns (io_catch (attemptFormat analyze w videoId lang kind (fst f)) (\<lambda>err. io_return None))
          (accepted 51)"
    by (intro returns_catch attemptFormat_accepted returns_return accepted_None)
  from returns_first_success [OF this Cons.IH] show ?case by simp
qed

lemma primary_accepted:
  "returns (extractWithYouTubeDataAPI_with analyze w videoId apiKey) (accepted 51)"
  unfolding extractWithYouTubeDataAPI_with_def
  by (auto intro!: returns_catch returns_bind returns_return returns_throw tryFormats_accepted
        accepted_None split: option.splits)

lemma strategyB_accepted:
  "returns (extractWithYoutubeTranscript_with analyze w videoId) (accepted 50)"
  unfolding extractWithYoutubeTranscript_with_def
  by (auto intro!: returns_catch returns_bind returns_return simp: accepted_def Let_def
        split: option.splits)

lemma parseCaptionTracks_accepted:
  "returns (parseCaptionTracks w tracksJson) (accepted 50)"
  unfolding parseCaptionTracks_def
  by (auto intro!: returns_catch returns_bind returns_return simp: accepted_def Let_def
        split: option.splits)

lemma strategyC_accepted:
  "returns (extractWithTimedTextAPI w videoId) (accepted 50)"
  unfolding extractWithTimedTextAPI_def
  by (auto intro!: returns_catch returns_bind returns_return parseCaptionTracks_accepted
        accepted_None split: option.splits)

lemma attemptLanguage_accepted:
  "returns (attemptLanguage w videoId code) (accepted 50)"
  unfolding attemptLanguage_def
  by (auto intro!: returns_bind returns_return simp: accepted_def Let_def)

lemma tryLanguages_accepted:
  "returns (tryLanguages w videoId ls) (accepted 50)"
proof (induction ls)
  case Nil
  show ?case by (simp add: returns_return accepted_None)
next
  case (Cons l ls)
  have "returns (io_catch (attemptLanguage w videoId (fst l)) (\<lambda>error. io_return None))
          (accepted 50)"
    by (intro returns_catch attemptLanguage_accepted returns_return accepted_None)
  from returns_first_success [OF this Cons.IH] show ?case by simp
qed

lemma strategyD_accepted:
  "returns (extractWithLanguageFallback w videoId) (accepted 50)"
  unfolding extractWithLanguageFallback_def
  by (intro returns_catch returns_bind tryLanguages_accepted returns_return accepted_None)

lemma primaryStage_accepted:
  "returns (primaryStage analyze w videoId apiKey) (accepted 50)"
proof -
  have "returns (extractWithYouTubeDataAPI_with analyze w videoId k) (accepted 50)" for k
    using primary_accepted [of analyze w videoId k]
    unfolding returns_def by (blast intro: accepted_weaken)
  then show ?thesis
    unfolding primaryStage_def
    by (auto intro!: returns_bind returns_return accepted_None split: option.splits)
qed

lemma returns_or_else:
  "returns m (accepted n) \<Longrightarrow> returns k (accepted n) \<Longrightarrow>
   returns (io_bind m (\<lambda>r. case r of Some result \<Rightarrow> succeed which result | None \<Rightarrow> k)) (accepted n)"
  by (rule returns_bind2 [where Q = "accepted n"])
     (auto intro!: returns_return returns_bind simp: succeed_def split: option.splits)

lemma extractCaptions_accepted:
  "returns (extractCaptions_with analyze w videoId apiKey) (accepted 50)"
  unfolding extractCaptions_with_def
  by (intro returns_or_else primaryStage_accepted strategyB_accepted strategyC_accepted
        strategyD_accepted returns_bind returns_return accepted_None)

subsection \<open>No fault leaves a strategy\<close>

lemma nothrow_return: "nothrow (io_return x)"
  by (simp add: nothrow_def io_return_def)

lemma nothrow_log: "nothrow (io_log ev)"
  by (simp add: nothrow_def io_log_def)

lemma nothrow_bind: "nothrow m \<Longrightarrow> (\<And>x. nothrow (f x)) \<Longrightarrow> nothrow (io_bind m f)"
  unfolding nothrow_def io_bind_def
proof
  fix s
  assume m: "\<forall>s. \<exists>x s'. m s = (Inr x, s')" and f: "\<And>x. \<forall>s. \<exists>y s'. f x s = (Inr y, s')"
  from m obtain x s1 where 1: "m s = (Inr x, s1)" by blast
  from f [of x] obtain y s2 where 2: "f x s1 = (Inr y, s2)" by blast
  from 1 2 show "\<exists>y s'. (case m s of (Inl e, s') \<Rightarrow> (Inl e, s') | (Inr x, s') \<Rightarrow> f x s') = (Inr y, s')"
    by simp
qed

lemma nothrow_catch: "(\<And>e. nothrow (h e)) \<Longrightarrow> nothrow (io_catch m h)"
  unfolding nothrow_def io_catch_def
proof
  fix s
  assume h: "\<And>e. \<forall>s. \<exists>y s'. h e s = (Inr y, s')"
  obtain r s1 where 1: "m s = (r, s1)" by (cases "m s")
  show "\<exists>x s'. (case m s of (Inl e, s') \<Rightarrow> h e s' | (Inr x, s') \<Rightarrow> (Inr x, s')) = (Inr x, s')"
  proof (cases r)
    case (Inl e)
    from h [of e] obtain y s2 where "h e s1 = (Inr y, s2)" by blast
    with 1 Inl show ?thesis by simp
  next
    case (Inr x)
    with 1 show ?thesis by simp
  qed
qed

lemma primary_nothrow: "nothrow (extractWithYouTubeDataAPI_with analyze w videoId apiKey)"
  unfolding extractWithYouTubeDataAPI_with_def by (intro nothrow_catch nothrow_return)

lemma strategyB_nothrow: "nothrow (extractWithYoutubeTranscript_with analyze w videoId)"
  unfolding extractWithYoutubeTranscript_with_def by (intro nothrow_catch nothrow_return)

lemma strategyC_nothrow: "nothrow (extractWithTimedTextAPI w videoId)"
  unfolding extractWithTimedTextAPI_def by (intro nothrow_catch nothrow_return)

lemma strategyD_nothrow: "nothrow (extractWithLanguageFallback w videoId)"
  unfolding extractWithLanguageFallback_def by (intro nothrow_catch nothrow_return)

lemma primaryStage_nothrow: "nothrow (primaryStage analyze w videoId apiKey)"
  unfolding primaryStage_def
  by (auto intro!: nothrow_bind nothrow_log nothrow_return primary_nothrow split: option.splits)

lemma succeed_nothrow: "nothrow (succeed which result)"
  unfolding succeed_def by (intro nothrow_bind nothrow_log nothrow_return)

lemma nothrow_or_else:
  "nothrow m \<Longrightarrow> nothrow k \<Longrightarrow>
   nothrow (io_bind m (\<lambda>r. case r of Some result \<Rightarrow> succeed which result | None \<Rightarrow> k))"
  by (rule nothrow_bind) (auto intro: succeed_nothrow split: option.splits)

lemma extractCaptions_with_nothrow: "nothrow (extractCaptions_with analyze w videoId apiKey)"
  unfolding extractCaptions_with_def
  by (intro nothrow_or_else primaryStage_nothrow strategyB_nothrow strategyC_nothrow
        strategyD_nothrow nothrow_bind nothrow_log nothrow_return)

lemma extractCaptions_exhausted:
  assumes "primaryStage analyze w videoId apiKey s = (Inr None, sA)"
    and "extractWithYoutubeTranscript_with analyze w videoId sA = (Inr None, sB)"
    and "extractWithTimedTextAPI w videoId sB = (Inr None, sC)"
    and "extractWithLanguageFallback w videoId sC = (Inr None, sD)"
  shows "extractCaptions_with analyze w videoId apiKey s = (Inr None, sD\<lparr>trace := trace sD @ [AllFailed]\<rparr>)"
  using assms by (simp add: extractCaptions_with_def io_bind_def io_log_def io_return_def)

subsection \<open>What a run adds to the trace\<close>

lemma emits_return: "emits (io_return x) A"
  by (simp add: emits_def io_return_def)

lemma emits_throw: "emits (io_throw e) A"
  by (simp add: emits_def io_throw_def)

lemma emits_lift: "emits (io_lift r) A"
  by (simp add: emits_def io_lift_def)

lemma emits_log: "A ev \<Longrightarrow> emits (io_log ev) A"
  by (simp add: emits_def io_log_def)

lemma emits_await: "A ev \<Longrightarrow> emits (io_await ev call) A"
  by (simp add: emits_def io_await_def)

lemma emits_bind: "emits m A \<Longrightarrow> (\<And>x. emits (f x) A) \<Longrightarrow> emits (io_bind m f) A"
  unfolding emits_def
proof
  fix s
  assume m: "\<forall>s. \<exists>evs. trace (snd (m s)) = trace s @ evs \<and> list_all A evs"
    and f: "\<And>x. \<forall>s. \<exists>evs. trace (snd (f x s)) = trace s @ evs \<and> list_all A evs"
  obtain r s1 where 1: "m s = (r, s1)" by (cases "m s")
  from m obtain evs where 2: "trace (snd (m s)) = trace s @ evs" "list_all A evs" by blast
  show "\<exists>evs. trace (snd (io_bind m f s)) = trace s @ evs \<and> list_all A evs"
  proof (cases r)
    case (Inl e)
    with 1 2 show ?thesis by (auto simp: io_bind_def)
  next
    case (Inr x)
    from f [of x] obtain evs' where 3: "trace (snd (f x s1)) = trace s1 @ evs'" "list_all A evs'"
      by blast
    from 1 2 3 Inr have "trace (snd (io_bind m f s)) = trace s @ (evs @ evs')"
      by (simp add: io_bind_def)
    moreover have "list_all A (evs @ evs')" using 2 3 by simp
    ultimately show ?thesis by blast
  qed
qed

lemma emits_catch: "emits m A \<Longrightarrow> (\<And>e. emits (h e) A) \<Longrightarrow> emits (io_catch m h) A"
  unfolding emits_def
proof
  fix s
  assume m: "\<forall>s. \<exists>evs. trace (snd (m s)) = trace s @ evs \<and> list_all A evs"
    and h: "\<And>e. \<forall>s. \<exists>evs. trace (snd (h e s)) = trace s @ evs \<and> list_all A evs"
  obtain r s1 where 1: "m s = (r, s1)" by (cases "m s")
  from m obtain evs where 2: "trace (snd (m s)) = trace s @ evs" "list_all A evs" by blast
  show "\<exists>evs. trace (snd (io_catch m h s)) = trace s @ evs \<and> list_all A evs"
  proof (cases r)
    case (Inr x)
    with 1 2 show ?thesis by (auto simp: io_catch_def)
  next
    case (Inl e)
    from h [of e] obtain evs' where 3: "trace (snd (h e s1)) = trace s1 @ evs'" "list_all A evs'"
      by blast
    from 1 2 3 Inl have "trace (snd (io_catch m h s)) = trace s @ (evs @ evs')"
      by (simp add: io_catch_def)
    moreover have "list_all A (evs @ evs')" using 2 3 by simp
    ultimately show ?thesis by blast
  qed
qed

lemma httpGet_emits: "A (Fetched req) \<Longrightarrow> emits (httpGet w req) A"
  unfolding httpGet_def by (rule emits_await)

lemma attemptFormat_emits:
  "emits (attemptFormat analyze w videoId lang kind fmt) primaryEvent"
  unfolding attemptFormat_def
  by (auto intro!: emits_bind emits_return emits_lift emits_log httpGet_emits)

lemma tryFormats_emits:
  "emits (tryFormats analyze w videoId lang kind fs) primaryEvent"
proof (induction fs)
  case Nil
  show ?case by (simp add: emits_return)
next
  case (Cons f fs)
  show ?case
    by (auto intro!: emits_bind emits_catch attemptFormat_emits emits_return Cons.IH
          split: option.splits)
qed

lemma primary_emits:
  "emits (extractWithYouTubeDataAPI_with analyze w videoId apiKey) primaryEvent"
  unfolding extractWithYouTubeDataAPI_with_def
  by (auto intro!: emits_catch emits_bind emits_return emits_throw emits_lift emits_log
        httpGet_emits tryFormats_emits split: option.splits)

text \<open>
  Every strategy prints its banner first, and the trace only grows: whenever strategy B,
  C or D has run, its banner is in the trace.
\<close>

lemma emits_trace_grows:
  assumes "emits m A"
  shows "set (trace s) \<subseteq> set (trace (snd (m s)))"
proof -
  from assms obtain evs where "trace (snd (m s)) = trace s @ evs"
    unfolding emits_def by blast
  then show ?thesis by simp
qed

lemma banner_stays:
  assumes k: "emits k anyEvent" and h: "\<And>e. emits (h e) anyEvent"
  shows "ev \<in> set (trace (snd (io_catch (io_bind (io_log ev) (\<lambda>_. k)) h s)))"
proof -
  have "emits (io_catch (\<lambda>s. k s) h) anyEvent"
    using k h by (intro emits_catch)
  then have grow: "set (trace s1) \<subseteq> set (trace (snd (io_catch k h s1)))" for s1
    by (rule emits_trace_grows)
  have "io_catch (io_bind (io_log ev) (\<lambda>_. k)) h s = io_catch k h (s\<lparr>trace := trace s @ [ev]\<rparr>)"
    by (simp add: io_catch_def io_bind_def io_log_def)
  with grow [of "s\<lparr>trace := trace s @ [ev]\<rparr>"] show ?thesis by auto
qed

lemma strategyB_banner:
  "Banner StrategyB \<in> set (trace (snd (extractWithYoutubeTranscript_with analyze w videoId s)))"
  unfolding extractWithYoutubeTranscript_with_def
  by (rule banner_stays)
     (auto intro!: emits_bind emits_catch emits_await emits_return emits_log
        simp: anyEvent_def Let_def split: option.splits)

lemma parseCaptionTracks_emits: "emits (parseCaptionTracks w tracksJson) anyEvent"
  unfolding parseCaptionTracks_def
  by (auto intro!: emits_catch emits_bind emits_lift emits_return httpGet_emits
        simp: anyEvent_def Let_def split: option.splits)

lemma strategyC_banner:
  "Banner StrategyC \<in> set (trace (snd (extractWithTimedTextAPI w videoId s)))"
  unfolding extractWithTimedTextAPI_def
  by (rule banner_stays)
     (auto intro!: emits_bind emits_lift emits_return httpGet_emits parseCaptionTracks_emits
        simp: anyEvent_def split: option.splits)

lemma attemptLanguage_emits: "emits (attemptLanguage w videoId code) anyEvent"
  unfolding attemptLanguage_def
  by (auto intro!: emits_bind emits_lift emits_return httpGet_emits simp: anyEvent_def Let_def)

lemma tryLanguages_emits: "emits (tryLanguages w videoId ls) anyEvent"
proof (induction ls)
  case Nil
  show ?case by (simp add: emits_return)
next
  case (Cons l ls)
  show ?case
    by (auto intro!: emits_bind emits_catch attemptLanguage_emits emits_return Cons.IH
          split: option.splits)
qed

lemma strategyD_banner:
  "Banner StrategyD \<in> set (trace (snd (extractWithLanguageFallback w videoId s)))"
  unfolding extractWithLanguageFallback_def
  by (rule banner_stays) (auto intro!: tryLanguages_emits emits_return)

subsection \<open>Runs that differ in the quality analyzer\<close>

lemma agree_return: "agree (io_return x) (io_return x)"
  by (simp add: agree_def io_return_def)

lemma agree_throw: "agree (io_throw e) (io_throw e)"
  by (simp add: agree_def io_throw_def)

lemma agree_lift: "agree (io_lift r) (io_lift r)"
  by (simp add: agree_def io_lift_def)

lemma agree_log: "agree (io_log ev) (io_log ev)"
  by (simp add: agree_def io_log_def similar_def)

lemma agree_report: "agree (io_log (QualityReport q)) (io_log (QualityReport q'))"
  by (simp add: agree_def io_log_def similar_def)

lemma agree_await: "agree (io_await ev call) (io_await ev call)"
  by (simp add: agree_def io_await_def similar_def)

lemma agree_bind:
  assumes m: "agree m m'" and f: "\<And>x. agree (f x) (f' x)"
  shows "agree (io_bind m f) (io_bind m' f')"
  unfolding agree_def
proof (intro allI impI)
  fix s s' :: Session
  assume t: "similar s s'"
  obtain r s1 where 1: "m s = (r, s1)" by (cases "m s")
  obtain r' s1' where 2: "m' s' = (r', s1')" by (cases "m' s'")
  from m [unfolded agree_def, rule_format, OF t] 1 2
  have 3: "r' = r" "similar s1 s1'" by simp_all
  show "fst (io_bind m f s) = fst (io_bind m' f' s')
        \<and> similar (snd (io_bind m f s)) (snd (io_bind m' f' s'))"
  proof (cases r)
    case (Inl e)
    with 1 2 3 show ?thesis by (simp add: io_bind_def)
  next
    case (Inr x)
    from f [of x] 3 have "fst (f x s1) = fst (f' x s1') \<and> similar (snd (f x s1)) (snd (f' x s1'))"
      by (simp add: agree_def)
    with 1 2 3 Inr show ?thesis by (simp add: io_bind_def)
  qed
qed

lemma agree_catch:
  assumes m: "agree m m'" and h: "\<And>e. agree (h e) (h' e)"
  shows "agree (io_catch m h) (io_catch m' h')"
  unfolding agree_def
proof (intro allI impI)
  fix s s' :: Session
  assume t: "similar s s'"
  obtain r s1 where 1: "m s = (r, s1)" by (cases "m s")
  obtain r' s1' where 2: "m' s' = (r', s1')" by (cases "m' s'")
  from m [unfolded agree_def, rule_format, OF t] 1 2
  have 3: "r' = r" "similar s1 s1'" by simp_all
  show "fst (io_catch m h s) = fst (io_catch m' h' s')
        \<and> similar (snd (io_catch m h s)) (snd (io_catch m' h' s'))"
  proof (cases r)
    case (Inr x)
    with 1 2 3 show ?thesis by (simp add: io_catch_def)
  next
    case (Inl e)
    from h [of e] 3 have "fst (h e s1) = fst (h' e s1') \<and> similar (snd (h e s1)) (snd (h' e s1'))"
      by (simp add: agree_def)
    with 1 2 3 Inl show ?thesis by (simp add: io_catch_def)
  qed
qed

lemma httpGet_agree: "agree (httpGet w req) (httpGet w req)"
  unfolding httpGet_def by (rule agree_await)

lemma attemptFormat_agree:
  "agree (attemptFormat analyze w videoId lang kind fmt) (attemptFormat analyze' w videoId lang kind fmt)"
  unfolding attemptFormat_def
  by (auto intro!: agree_bind agree_return agree_lift agree_report httpGet_agree)

lemma tryFormats_agree:
  "agree (tryFormats analyze w videoId lang kind fs) (tryFormats analyze' w videoId lang kind fs)"
proof (induction fs)
  case Nil
  show ?case by (simp add: agree_return)
next
  case (Cons f fs)
  show ?case
    by (auto intro!: agree_bind agree_catch attemptFormat_agree agree_return Cons.IH
          split: option.splits)
qed

lemma primary_agree:
  "agree (extractWithYouTubeDataAPI_with analyze w videoId apiKey)
         (extractWithYouTubeDataAPI_with analyze' w videoId apiKey)"
  unfolding extractWithYouTubeDataAPI_with_def
  by (auto intro!: agree_catch agree_bind agree_return agree_throw agree_lift agree_log
        httpGet_agree tryFormats_agree split: option.splits)

lemma strategyB_agree:
  "agree (extractWithYoutubeTranscript_with analyze w videoId)
         (extractWithYoutubeTranscript_with analyze' w videoId)"
  unfolding extractWithYoutubeTranscript_with_def
  by (auto intro!: agree_catch agree_bind agree_return agree_await agree_log agree_report
        simp: Let_def split: option.splits)

lemma parseCaptionTracks_agree: "agree (parseCaptionTracks w tracksJson) (parseCaptionTracks w tracksJson)"
  unfolding parseCaptionTracks_def
  by (auto intro!: agree_catch agree_bind agree_lift agree_return httpGet_agree
        simp: Let_def split: option.splits)

lemma strategyC_agree: "agree (extractWithTimedTextAPI w videoId) (extractWithTimedTextAPI w videoId)"
  unfolding extractWithTimedTextAPI_def
  by (auto intro!: agree_catch agree_bind agree_lift agree_return agree_log httpGet_agree
        parseCaptionTracks_agree split: option.splits)

lemma attemptLanguage_agree: "agree (attemptLanguage w videoId code) (attemptLanguage w videoId code)"
  unfolding attemptLanguage_def
  by (auto intro!: agree_bind agree_lift agree_return httpGet_agree simp: Let_def)

lemma tryLanguages_agree: "agree (tryLanguages w videoId ls) (tryLanguages w videoId ls)"
proof (induction ls)
  case Nil
  show ?case by (simp add: agree_return)
next
  case (Cons l ls)
  show ?case
    by (auto intro!: agree_bind agree_catch attemptLanguage_agree agree_return Cons.IH
          split: option.splits)
qed

lemma strategyD_agree:
  "agree (extractWithLanguageFallback w videoId) (extractWithLanguageFallback w videoId)"
  unfolding extractWithLanguageFallback_def
  by (intro agree_catch agree_bind agree_log tryLanguages_agree agree_return)

lemma primaryStage_agree:
  "agree (primaryStage analyze w videoId apiKey) (primaryStage analyze' w videoId apiKey)"
  unfolding primaryStage_def
  by (auto intro!: agree_bind agree_log agree_return primary_agree split: option.splits)

lemma agree_or_else:
  "agree m m' \<Longrightarrow> agree k k' \<Longrightarrow>
   agree (io_bind m (\<lambda>r. case r of Some result \<Rightarrow> succeed which result | None \<Rightarrow> k))
         (io_bind m' (\<lambda>r. case r of Some result \<Rightarrow> succeed which result | None \<Rightarrow> k'))"
  by (rule agree_bind)
     (auto intro!: agree_bind agree_log agree_return simp: succeed_def split: option.splits)

lemma extractCaptions_agree:
  "agree (extractCaptions_with analyze w videoId apiKey) (extractCaptions_with analyze' w videoId apiKey)"
  unfolding extractCaptions_with_def
  by (intro agree_or_else primaryStage_agree strategyB_agree strategyC_agree strategyD_agree
        agree_bind agree_log agree_return)

section \<open>Properties of the quality analyzer\<close>

lemma splitOn_eq:
  "splitOn sep s =
     takeWhile (\<lambda>c. \<not> sep c) s #
       (case dropWhile (\<lambda>c. \<not> sep c) s of [] \<Rightarrow> [] | _ # r \<Rightarrow> splitOn sep r)"
  by (induction s) (auto split: list.splits)

lemma includesStr_iff: "includesStr s pat \<longleftrightarrow> (\<exists>pre post. s = pre @ pat @ post)"
proof (induction s)
  case Nil
  show ?case by auto
next
  case (Cons c cs)
  show ?case
  proof
    assume "includesStr (c # cs) pat"
    then consider "prefix pat (c # cs)" | "includesStr cs pat" by auto
    then show "\<exists>pre post. c # cs = pre @ pat @ post"
    proof cases
      case 1
      then obtain post where "c # cs = pat @ post" by (auto simp: prefix_def)
      then have "c # cs = [] @ pat @ post" by simp
      then show ?thesis by blast
    next
      case 2
      with Cons.IH obtain pre post where "cs = pre @ pat @ post" by blast
      then have "c # cs = (c # pre) @ pat @ post" by simp
      then show ?thesis by blast
    qed
  next
    assume "\<exists>pre post. c # cs = pre @ pat @ post"
    then obtain pre post where e: "c # cs = pre @ pat @ post" by blast
    show "includesStr (c # cs) pat"
    proof (cases pre)
      case Nil
      with e have "prefix pat (c # cs)" by (simp add: prefix_def)
      then show ?thesis by simp
    next
      case (Cons p ps)
      with e have "cs = ps @ pat @ post" by simp
      with Cons.IH have "includesStr cs pat" by blast
      then show ?thesis by simp
    qed
  qed
qed

lemma pronouns_word: "p \<in> set pronouns \<Longrightarrow> p \<noteq> [] \<and> list_all isWordChar p"
  by (auto simp: pronouns_def isWordChar_def)

lemma matchPronounAt_Some:
  "matchPronounAt ps s = Some k \<Longrightarrow>
     \<exists>p rest. p \<in> set ps \<and> s = p @ rest \<and> k = length p \<and> (rest = [] \<or> \<not> isWordChar (hd rest))"
proof (induction ps)
  case Nil
  then show ?case by simp
next
  case (Cons p ps)
  show ?case
  proof (cases "prefix p s \<and> (case drop (length p) s of [] \<Rightarrow> True | c # _ \<Rightarrow> \<not> isWordChar c)")
    case True
    then obtain rest where s: "s = p @ rest" by (auto simp: prefix_def)
    with True have "rest = [] \<or> \<not> isWordChar (hd rest)" by (cases rest) auto
    moreover from True Cons.prems have "k = length p" by simp
    ultimately show ?thesis using s by auto
  next
    case False
    with Cons.prems have "matchPronounAt ps s = Some k" by auto
    from Cons.IH [OF this] show ?thesis by auto
  qed
qed

lemma matchPronounAt_None:
  "matchPronounAt ps s = None \<Longrightarrow> p \<in> set ps \<Longrightarrow> s = p @ rest \<Longrightarrow>
     rest \<noteq> [] \<and> isWordChar (hd rest)"
proof (induction ps)
  case Nil
  then show ?case by simp
next
  case (Cons q qs)
  show ?case
  proof (cases "p = q")
    case True
    with Cons.prems show ?thesis by (cases rest) (auto split: if_splits)
  next
    case False
    with Cons.prems have "matchPronounAt qs s = None" "p \<in> set qs" by (auto split: if_splits)
    from Cons.IH [OF this Cons.prems(3)] show ?thesis .
  qed
qed

lemma nil_not_pronoun: "[] \<notin> set pronouns"
  by (simp add: pronouns_def)

lemma countIn_simps: "countIn [] = 0" "countIn ([] # xs) = countIn xs"
  "countIn (x # xs) = (if x \<in> set pronouns then Suc (countIn xs) else countIn xs)"
  by (auto simp: countIn_def pronouns_def)

lemma tl_splitOn_boundary:
  "rest = [] \<or> sep (hd rest) \<Longrightarrow>
     tl (splitOn sep rest) = (case rest of [] \<Rightarrow> [] | _ # r \<Rightarrow> splitOn sep r)"
  by (cases rest) auto

lemma countPronouns_tokens:
  "countPronouns prev s =
     (if prev then countIn (tl (splitOn (\<lambda>c. \<not> isWordChar c) s))
      else countIn (splitOn (\<lambda>c. \<not> isWordChar c) s))"
proof (induction prev s rule: countPronouns.induct)
  case (1 prev)
  show ?case by (simp add: countIn_simps nil_not_pronoun)
next
  case (2 prev c cs)
  let ?sep = "\<lambda>c. \<not> isWordChar c"
  let ?s = "c # cs"
  have so: "splitOn ?sep ?s = takeWhile isWordChar ?s #
       (case dropWhile isWordChar ?s of [] \<Rightarrow> [] | _ # r \<Rightarrow> splitOn ?sep r)"
    using splitOn_eq [of ?sep ?s] by simp
  show ?case
  proof (cases prev)
    case True
    with 2 have ih: "countPronouns (isWordChar c) cs =
      (if isWordChar c then countIn (tl (splitOn ?sep cs)) else countIn (splitOn ?sep cs))" by simp
    from True have "countPronouns prev ?s = countPronouns (isWordChar c) cs" by simp
    also have "\<dots> = countIn (tl (splitOn ?sep ?s))"
      using ih by (auto split: list.splits)
    finally show ?thesis using True by simp
  next
    case False
    show ?thesis
    proof (cases "matchPronounAt pronouns ?s")
      case None
      with False 2 have ih: "countPronouns (isWordChar c) cs =
        (if isWordChar c then countIn (tl (splitOn ?sep cs)) else countIn (splitOn ?sep cs))" by simp
      from False None have eq: "countPronouns prev ?s = countPronouns (isWordChar c) cs" by simp
      show ?thesis
      proof (cases "isWordChar c")
        case w: False
        with eq ih False show ?thesis by (simp add: countIn_simps nil_not_pronoun)
      next
        case w: True
        have notp: "takeWhile isWordChar ?s \<notin> set pronouns"
        proof
          assume p: "takeWhile isWordChar ?s \<in> set pronouns"
          have "?s = takeWhile isWordChar ?s @ dropWhile isWordChar ?s" by simp
          from matchPronounAt_None [OF None p this]
          have "dropWhile isWordChar ?s \<noteq> [] \<and> isWordChar (hd (dropWhile isWordChar ?s))" .
          then show False using hd_dropWhile [of isWordChar ?s] by blast
        qed
        have "tl (splitOn ?sep ?s) =
            (case dropWhile isWordChar ?s of [] \<Rightarrow> [] | _ # r \<Rightarrow> splitOn ?sep r)"
          by (simp only: so list.sel)
        moreover have "countIn (splitOn ?sep ?s) =
            countIn (case dropWhile isWordChar ?s of [] \<Rightarrow> [] | _ # r \<Rightarrow> splitOn ?sep r)"
          by (simp only: so countIn_simps(3) notp if_False)
        ultimately have "countIn (splitOn ?sep ?s) = countIn (tl (splitOn ?sep ?s))" by simp
        also have "tl (splitOn ?sep ?s) = tl (splitOn ?sep cs)"
          using w by (auto split: list.splits)
        finally show ?thesis using eq ih w False by simp
      qed
    next
      case (Some k)
      from matchPronounAt_Some [OF Some] obtain p rest where
        p: "p \<in> set pronouns" and s: "?s = p @ rest" and k: "k = length p"
        and b: "rest = [] \<or> \<not> isWordChar (hd rest)" by blast
      from s k have d: "drop k ?s = rest" by simp
      from False Some 2 d have ih: "countPronouns True rest = countIn (tl (splitOn ?sep rest))" by simp
      from pronouns_word [OF p] have "list_all isWordChar p" by simp
      from takeWhile_run [OF this b] s
      have tw: "takeWhile isWordChar ?s = p" "dropWhile isWordChar ?s = rest" by simp_all
      have "splitOn ?sep ?s = p # tl (splitOn ?sep rest)"
        using so tw tl_splitOn_boundary [of rest ?sep] b by simp
      then have "countIn (splitOn ?sep ?s) = Suc (countIn (tl (splitOn ?sep rest)))"
        using p by (simp add: countIn_simps nil_not_pronoun)
      moreover from False Some d have "countPronouns prev ?s = Suc (countPronouns True rest)"
        by simp
      ultimately show ?thesis using ih False by simp
    qed
  qed
qed

lemma pronoun_filter:
  "filter (\<lambda>t. t \<in> set pronouns) (filter (\<lambda>t. t \<noteq> []) xs) = filter (\<lambda>t. t \<in> set pronouns) xs"
  by (induction xs) (auto simp: nil_not_pronoun)

lemma firstPersonPronouns_tokens: "firstPersonPronouns text = pronounTokens (toLowerCase text)"
  using countPronouns_tokens [of False "toLowerCase text"]
  by (simp only: firstPersonPronouns_def pronounTokens_def wordTokens_def pronoun_filter countIn_def
        if_False)

lemma wordsOf_dropWhile: "wordsOf (dropWhile isSpace cs) = wordsOf cs"
  by (induction cs) (auto simp: wordsOf_def)

lemma last_dropWhile:
  "dropWhile P cs \<noteq> [] \<Longrightarrow> last (dropWhile P cs) = last cs"
  by (induction cs) (auto split: if_splits)

lemma dropWhile_Nil_last: "dropWhile P cs = [] \<Longrightarrow> P c \<Longrightarrow> P (last (c # cs))"
  by (induction cs arbitrary: c) (auto split: if_splits)

lemma totalWords_count:
  "totalWords s =
     length (wordsOf s) + (if s = [] \<or> isSpace (hd s) then 1 else 0)
       + (if s \<noteq> [] \<and> isSpace (last s) then 1 else 0)"
  unfolding totalWords_def
proof (induction s rule: splitWs.induct)
  case (1 s)
  let ?w = "takeWhile (\<lambda>c. \<not> isSpace c) s"
  have so: "splitOn isSpace s = ?w #
       (case dropWhile (\<lambda>c. \<not> isSpace c) s of [] \<Rightarrow> [] | _ # r \<Rightarrow> splitOn isSpace r)"
    by (rule splitOn_eq)
  show ?case
  proof (cases "dropWhile (\<lambda>c. \<not> isSpace c) s")
    case Nil
    then have all: "\<forall>c\<in>set s. \<not> isSpace c" by (simp add: dropWhile_eq_Nil_conv)
    then have w: "?w = s" by (simp add: takeWhile_eq_all_conv)
    have "splitWs s = [s]" by (subst splitWs.simps) (simp only: Nil list.case)
    moreover have "wordsOf s = (if s = [] then [] else [s])"
      using so Nil w by (simp add: wordsOf_def)
    moreover have "s \<noteq> [] \<Longrightarrow> \<not> isSpace (hd s) \<and> \<not> isSpace (last s)"
      using all by auto
    ultimately show ?thesis by auto
  next
    case (Cons c cs)
    let ?rest = "dropWhile isSpace cs"
    have s: "s = ?w @ c # cs" using Cons takeWhile_dropWhile_id [of "\<lambda>c. \<not> isSpace c" s] by simp
    have c: "isSpace c" using Cons hd_dropWhile [of "\<lambda>c. \<not> isSpace c" s] by auto
    have wns: "\<forall>x\<in>set ?w. \<not> isSpace x" by (auto dest: set_takeWhileD)
    from 1 [OF Cons] have ih: "length (splitWs ?rest) =
      length (wordsOf ?rest) + (if ?rest = [] \<or> isSpace (hd ?rest) then 1 else 0)
        + (if ?rest \<noteq> [] \<and> isSpace (last ?rest) then 1 else 0)" .
    have len: "length (splitWs s) = Suc (length (splitWs ?rest))"
      using Cons by (subst splitWs.simps) simp
    have "splitOn isSpace s = ?w # splitOn isSpace cs" using so Cons by simp
    then have words: "wordsOf s = (if ?w = [] then [] else [?w]) @ wordsOf ?rest"
      by (simp add: wordsOf_def wordsOf_dropWhile [unfolded wordsOf_def])
    have lead: "isSpace (hd s) \<longleftrightarrow> ?w = []"
    proof (cases ?w)
      case Nil
      with s c show ?thesis by (metis append_Nil list.sel(1))
    next
      case (Cons a as)
      then have "hd s = a" using s by (metis hd_append2 list.sel(1) list.distinct(1))
      moreover have "\<not> isSpace a" using wns Cons by simp
      ultimately show ?thesis using Cons by simp
    qed
    have sne: "s \<noteq> []" using s by auto
    have ls: "last s = last (c # cs)" using s by (metis last_appendR list.distinct(1))
    show ?thesis
    proof (cases "?rest = []")
      case True
      then have "isSpace (last (c # cs))" using c by (rule dropWhile_Nil_last)
      with ls have "isSpace (last s)" by simp
      moreover have "wordsOf [] = []" by (simp add: wordsOf_def)
      then have "wordsOf ?rest = []" by (simp only: True)
      ultimately show ?thesis using len ih words lead sne True by auto
    next
      case False
      then have "\<not> isSpace (hd ?rest)" using hd_dropWhile [of isSpace cs] by simp
      moreover have "last ?rest = last cs" using False by (rule last_dropWhile)
      moreover have "cs \<noteq> []" using False by auto
      ultimately show ?thesis using len ih words lead sne False ls by auto
    qed
  qed
qed

lemma totalWords_trimmed:
  "s \<noteq> [] \<Longrightarrow> \<not> isSpace (hd s) \<Longrightarrow> \<not> isSpace (last s) \<Longrightarrow> totalWords s = length (wordsOf s)"
  by (simp add: totalWords_count)

lemma totalWords_positive: "0 < totalWords s"
  unfolding totalWords_def by (subst splitWs.simps) (simp split: list.splits)

text \<open>
  The analyzer in the terms of the property: the count of the regular expression is the
  number of pronoun tokens of the lower-cased text, the length of the split is the
  number of pieces, and \<open>includes\<close> is the occurrence of a marker.
\<close>

lemma firstPersonPronouns_count: "firstPersonPronouns text = firstPersonTokens text"
  by (simp add: firstPersonPronouns_tokens pronounTokens_def firstPersonTokens_def pronouns_def
        toLowerCase_lowerCased tokensOf_wordTokens)

lemma totalWords_pieces: "totalWords text = pieceCount text"
  by (simp only: totalWords_count pieceCount_def wordCount_wordsOf isSpace_code)

lemma hasConversational_marker:
  "hasConversational text \<longleftrightarrow>
     (\<exists>word\<in>set [''I '', ''you '', ''we '', ''hello'', ''hi '', ''hey '', ''thanks'', ''okay'',
                   ''right'', ''so '', ''um '', ''uh ''].
        \<exists>pre post. lowerCased text = pre @ word @ post)"
  by (simp only: hasConversational_def conversationalWords_def list_ex_iff includesStr_iff
        toLowerCase_lowerCased)
section \<open>Sample runs\<close>

lemma sampleXml_length: "length sampleXml = 209"
  by (simp add: sampleXml_def)

lemma sampleText_length: "length sampleText = 80"
  by (simp add: sampleText_def)

lemma sampleXml_decoded: "decodeMarkupA sampleXml = sampleText"
  by code_simp

lemma captionedWorld_primary:
  "extractWithYouTubeDataAPI captionedWorld ''abcDEF12345'' ''KEY'' freshSession =
     (Inr (Some sampleResult),
      \<lparr>tick = 2, trace = [Banner StrategyA,
         Fetched \<lparr>req_url = captionsListUrl ''abcDEF12345'' ''KEY'', req_userAgent = None\<rparr>,
         Fetched \<lparr>req_url = timedTextUrl ''abcDEF12345'' ''en'' ''srv3'', req_userAgent = None\<rparr>,
         QualityReport (analyzeTranscriptQuality sampleText)]\<rparr>)"
  by (simp add: extractWithYouTubeDataAPI_def extractWithYouTubeDataAPI_with_def io_defs
        captionedWorld_def responseJson_def selectTrack_def formats_def attemptFormat_def
        captionsListUrl_def timedTextUrl_def sampleXml_decoded sampleXml_length
        sampleText_length sampleResult_def freshSession_def sampleTracks_def
        frenchStandard_def englishAuto_def)

lemma noCaptions_primary:
  "extractWithYouTubeDataAPI noCaptionsWorld ''abcDEF12345'' ''KEY'' s =
     (Inr None, s\<lparr>tick := Suc (tick s), trace := trace s @ [Banner StrategyA,
        Fetched \<lparr>req_url = captionsListUrl ''abcDEF12345'' ''KEY'', req_userAgent = None\<rparr>]\<rparr>)"
  by (simp add: extractWithYouTubeDataAPI_def extractWithYouTubeDataAPI_with_def io_defs
        noCaptionsWorld_def responseJson_def captionsListUrl_def watchUrl_def)

lemma noCaptions_B:
  "extractWithYoutubeTranscript noCaptionsWorld ''abcDEF12345'' s =
     (Inr None, s\<lparr>tick := Suc (Suc (Suc (tick s))), trace := trace s @ [Banner StrategyB, Imported,
        TranscriptRequested ''abcDEF12345'' (Some ''en''), TranscriptRequested ''abcDEF12345'' None]\<rparr>)"
  by (simp add: extractWithYoutubeTranscript_def extractWithYoutubeTranscript_with_def io_defs
        noCaptionsWorld_def)

lemma noCaptions_C:
  "extractWithTimedTextAPI noCaptionsWorld ''abcDEF12345'' s =
     (Inr None, s\<lparr>tick := Suc (tick s), trace := trace s @ [Banner StrategyC,
        Fetched \<lparr>req_url = watchUrl ''abcDEF12345'', req_userAgent = Some browserIdentity\<rparr>]\<rparr>)"
  by (simp add: extractWithTimedTextAPI_def io_defs noCaptionsWorld_def watchUrl_def)

lemma noCaptions_D_run:
  "extractWithLanguageFallback noCaptionsWorld ''abcDEF12345'' s =
     (Inr None, s\<lparr>tick := Suc (Suc (Suc (Suc (tick s)))), trace := trace s @ [Banner StrategyD,
        Fetched \<lparr>req_url = timedTextUrl ''abcDEF12345'' ''en'' ''srv3'', req_userAgent = None\<rparr>,
        Fetched \<lparr>req_url = timedTextUrl ''abcDEF12345'' ''a.en'' ''srv3'', req_userAgent = None\<rparr>,
        Fetched \<lparr>req_url = timedTextUrl ''abcDEF12345'' ''en-US'' ''srv3'', req_userAgent = None\<rparr>,
        Fetched \<lparr>req_url = timedTextUrl ''abcDEF12345'' ''en-GB'' ''srv3'', req_userAgent = None\<rparr>]\<rparr>)"
  by (simp add: extractWithLanguageFallback_def io_defs noCaptionsWorld_def watchUrl_def
        timedTextUrl_def languages_def attemptLanguage_def)

section \<open>The claims about the pipeline\<close>

text \<open>
  C1 asks that every result of \<open>extractCaptions\<close> carry a transcript of more than 50
  characters and the source \<open>captions\<close>. The primary strategy accepts a decoded text only
  when \<open>transcript.length > 50\<close> (line 187); strategies B, C and D reject only when
  \<open>transcript.length < 50\<close> (lines 249, 380 and 455), so they return a transcript of exactly
  50 characters. Run without a key on a video whose transcript package delivers one cue
  of 50 characters, \<open>extractCaptions\<close> returns that cue as its transcript.
\<close>

theorem extractCaptions_fifty_characters:
  "fst (extractCaptions (packageWorld (Inr (Some fiftyCues)) (Inl (Error ''unused''))) ''abcDEF12345'' None freshSession)
    = Inr (Some \<lparr>transcript = ''The quick brown fox jumps over the lazy dog today.'',
         source = ''captions'', language = ''en'', method_id = ''youtube-transcript-package''\<rparr>)
   \<and> length ''The quick brown fox jumps over the lazy dog today.'' = 50"
  by (simp add: extractCaptions_def extractCaptions_with_def primaryStage_def
        extractWithYoutubeTranscript_with_def io_defs packageWorld_def fiftyCues_def succeed_def
        trim_def isSpace_def freshSession_def Let_def)

text \<open>
  What the code does guarantee: every result carries the source \<open>captions\<close> and a
  transcript of at least 50 characters, and a result of the primary strategy one of more
  than 50.
\<close>

lemma extractCaptions_result_invariant:
  assumes "fst (extractCaptions w videoId apiKey s) = Inr (Some res)"
  shows "source res = ''captions'' \<and> 50 \<le> length (transcript res)"
proof -
  from assms obtain s' where "extractCaptions w videoId apiKey s = (Inr (Some res), s')"
    by (cases "extractCaptions w videoId apiKey s") simp
  with returnsD [OF extractCaptions_accepted, of analyzeTranscriptQuality w videoId apiKey s "Some res" s']
  show ?thesis by (simp add: extractCaptions_def accepted_def)
qed

lemma extractWithYouTubeDataAPI_result_invariant:
  assumes "fst (extractWithYouTubeDataAPI w videoId apiKey s) = Inr (Some res)"
  shows "source res = ''captions'' \<and> 50 < length (transcript res)"
proof -
  from assms obtain s' where "extractWithYouTubeDataAPI w videoId apiKey s = (Inr (Some res), s')"
    by (cases "extractWithYouTubeDataAPI w videoId apiKey s") simp
  with returnsD [OF primary_accepted, of analyzeTranscriptQuality w videoId apiKey s "Some res" s']
  show ?thesis by (simp add: extractWithYouTubeDataAPI_def accepted_def)
qed

lemma find_if: "find P xs = (if \<exists>x\<in>set xs. P x then Some (hd (filter P xs)) else None)"
  by (induction xs) auto

lemma hd_filter_holds: "\<exists>x\<in>set xs. P x \<Longrightarrow> P (hd (filter P xs)) \<and> hd (filter P xs) \<in> set xs"
  by (induction xs) auto

lemma priority_chain:
  assumes "xs \<noteq> []"
  shows "(case find P1 xs of Some t \<Rightarrow> Some t | None \<Rightarrow>
          (case find P2 xs of Some t \<Rightarrow> Some t | None \<Rightarrow>
          (case find P3 xs of Some t \<Rightarrow> Some t | None \<Rightarrow>
          (case find P4 xs of Some t \<Rightarrow> Some t | None \<Rightarrow>
          (case xs of [] \<Rightarrow> None | t # _ \<Rightarrow> Some t)))))
       = Some (if \<exists>x\<in>set xs. P1 x then hd (filter P1 xs)
               else if \<exists>x\<in>set xs. P2 x then hd (filter P2 xs)
               else if \<exists>x\<in>set xs. P3 x then hd (filter P3 xs)
               else if \<exists>x\<in>set xs. P4 x then hd (filter P4 xs)
               else hd xs)"
proof -
  have first: "(case xs of [] \<Rightarrow> None | t # _ \<Rightarrow> Some t) = Some (hd xs)"
    using assms by (cases xs) simp_all
  show ?thesis unfolding find_if first by simp
qed

lemma priority_chain_props:
  assumes "xs \<noteq> []"
    and "t = (if \<exists>x\<in>set xs. P1 x then hd (filter P1 xs)
               else if \<exists>x\<in>set xs. P2 x then hd (filter P2 xs)
               else if \<exists>x\<in>set xs. P3 x then hd (filter P3 xs)
               else if \<exists>x\<in>set xs. P4 x then hd (filter P4 xs)
               else hd xs)"
  shows "t \<in> set xs"
    and "(\<exists>x\<in>set xs. P1 x) \<longrightarrow> P1 t"
    and "\<not> (\<exists>x\<in>set xs. P1 x) \<and> (\<exists>x\<in>set xs. P2 x) \<longrightarrow> P2 t"
  using assms hd_filter_holds [of xs P1] hd_filter_holds [of xs P2]
    hd_filter_holds [of xs P3] hd_filter_holds [of xs P4]
  by (auto split: if_splits)

lemma attemptFormat_labelled:
  "returns (attemptFormat analyze w videoId lang kind fmt) (labelled lang kind)"
  unfolding attemptFormat_def
  by (auto intro!: returns_bind returns_return simp: labelled_def)

lemma tryFormats_labelled:
  "returns (tryFormats analyze w videoId lang kind fs) (labelled lang kind)"
proof (induction fs)
  case Nil
  show ?case by (simp add: returns_return labelled_def)
next
  case (Cons f fs)
  have m: "returns (io_catch (attemptFormat analyze w videoId lang kind (fst f)) (\<lambda>err. io_return None))
          (labelled lang kind)"
    by (intro returns_catch attemptFormat_labelled returns_return) (simp add: labelled_def)
  show ?case
    apply simp
    apply (rule returns_bind2 [OF m])
    using Cons.IH by (auto intro: returns_return split: option.splits)
qed

lemma primary_uses_selected_track:
  assumes listing: "fetch w (tick s) \<lparr>req_url = captionsListUrl videoId apiKey, req_userAgent = None\<rparr> = Inr r"
      "ok r" "body r = Inr listingText" "parseListing w listingText = Inr \<lparr>items = Some its\<rparr>"
    and sel: "selectTrack its = Some t"
    and res: "fst (extractWithYouTubeDataAPI w videoId apiKey s) = Inr (Some res)"
  shows "language res = snippet_language t \<and> method_id res = ''youtube-data-api-'' @ snippet_trackKind t"
proof -
  let ?s1 = "s\<lparr>tick := Suc (tick s),
      trace := trace s @ [Banner StrategyA,
        Fetched \<lparr>req_url = captionsListUrl videoId apiKey, req_userAgent = None\<rparr>]\<rparr>"
  let ?loop = "tryFormats analyzeTranscriptQuality w videoId (snippet_language t) (snippet_trackKind t) formats"
  from sel have ne: "its \<noteq> []" by (auto simp: selectTrack_def)
  have run: "extractWithYouTubeDataAPI w videoId apiKey s =
      io_catch ?loop (\<lambda>error. io_return None) ?s1"
    using listing sel ne
    by (simp add: extractWithYouTubeDataAPI_def extractWithYouTubeDataAPI_with_def io_defs
          responseJson_def)
  obtain x s2 where loop: "?loop ?s1 = (x, s2)" by (cases "?loop ?s1")
  with run res have "x = Inr (Some res)"
    by (cases x) (simp_all add: io_catch_def io_return_def)
  with loop returnsD [OF tryFormats_labelled, of analyzeTranscriptQuality w videoId
      "snippet_language t" "snippet_trackKind t" formats ?s1 "Some res" s2]
  show ?thesis by (simp add: labelled_def)
qed

text \<open>
  C2. On a non-empty list of caption tracks the primary strategy selects, first match
  wins: the first track with language \<open>en\<close> and kind \<open>standard\<close>; else the first with
  language \<open>en\<close> and the automatic kind (\<open>asr\<close> in the listing); else the first of kind
  \<open>standard\<close>; else the first of the automatic kind; else the first track of the list. So
  when an \<open>en\<close>/\<open>standard\<close> track exists the selected track is \<open>en\<close>/\<open>standard\<close>, and when
  none exists but an \<open>en\<close>/automatic track does, the selected track is \<open>en\<close>/automatic.
  It is this track the strategy goes on with: when the listing endpoint answers with
  these tracks and the strategy returns a result, the result carries the language of the
  selected track and a method named after its kind.
\<close>

theorem selectTrack_priority:
  assumes "its \<noteq> []"
  shows "\<exists>t. selectTrack its = Some t \<and> t \<in> set its
     \<and> t =
        (if \<exists>x\<in>set its. snippet_language x = ''en'' \<and> snippet_trackKind x = ''standard''
         then hd (filter (\<lambda>x. snippet_language x = ''en'' \<and> snippet_trackKind x = ''standard'') its)
         else if \<exists>x\<in>set its. snippet_language x = ''en'' \<and> snippet_trackKind x = ''asr''
         then hd (filter (\<lambda>x. snippet_language x = ''en'' \<and> snippet_trackKind x = ''asr'') its)
         else if \<exists>x\<in>set its. snippet_trackKind x = ''standard''
         then hd (filter (\<lambda>x. snippet_trackKind x = ''standard'') its)
         else if \<exists>x\<in>set its. snippet_trackKind x = ''asr''
         then hd (filter (\<lambda>x. snippet_trackKind x = ''asr'') its)
         else hd its)
     \<and> ((\<exists>x\<in>set its. snippet_language x = ''en'' \<and> snippet_trackKind x = ''standard'') \<longrightarrow>
          snippet_language t = ''en'' \<and> snippet_trackKind t = ''standard'')
     \<and> (\<not> (\<exists>x\<in>set its. snippet_language x = ''en'' \<and> snippet_trackKind x = ''standard'')
          \<and> (\<exists>x\<in>set its. snippet_language x = ''en'' \<and> snippet_trackKind x = ''asr'') \<longrightarrow>
          snippet_language t = ''en'' \<and> snippet_trackKind t = ''asr'')
     \<and> (fetch w (tick s) \<lparr>req_url = captionsListUrl videoId apiKey, req_userAgent = None\<rparr> = Inr r
          \<and> ok r \<and> body r = Inr listingText
          \<and> parseListing w listingText = Inr \<lparr>items = Some its\<rparr>
          \<and> fst (extractWithYouTubeDataAPI w videoId apiKey s) = Inr (Some res) \<longrightarrow>
          language res = snippet_language t
          \<and> method_id res = ''youtube-data-api-'' @ snippet_trackKind t)"
proof -
  let ?P1 = "\<lambda>x. snippet_language x = ''en'' \<and> snippet_trackKind x = ''standard''"
  let ?P2 = "\<lambda>x. snippet_language x = ''en'' \<and> snippet_trackKind x = ''asr''"
  let ?P3 = "\<lambda>x. snippet_trackKind x = ''standard''"
  let ?P4 = "\<lambda>x. snippet_trackKind x = ''asr''"
  let ?t = "if \<exists>x\<in>set its. ?P1 x then hd (filter ?P1 its)
            else if \<exists>x\<in>set its. ?P2 x then hd (filter ?P2 its)
            else if \<exists>x\<in>set its. ?P3 x then hd (filter ?P3 its)
            else if \<exists>x\<in>set its. ?P4 x then hd (filter ?P4 its)
            else hd its"
  have sel: "selectTrack its = Some ?t"
    unfolding selectTrack_def by (rule priority_chain [OF assms])
  from priority_chain_props [OF assms refl, of ?P1 ?P2 ?P3 ?P4]
  have props: "?t \<in> set its" "(\<exists>x\<in>set its. ?P1 x) \<longrightarrow> ?P1 ?t"
    "\<not> (\<exists>x\<in>set its. ?P1 x) \<and> (\<exists>x\<in>set its. ?P2 x) \<longrightarrow> ?P2 ?t"
    by blast+
  have used: "fetch w (tick s) \<lparr>req_url = captionsListUrl videoId apiKey, req_userAgent = None\<rparr> = Inr r
          \<and> ok r \<and> body r = Inr listingText
          \<and> parseListing w listingText = Inr \<lparr>items = Some its\<rparr>
          \<and> fst (extractWithYouTubeDataAPI w videoId apiKey s) = Inr (Some res) \<longrightarrow>
          language res = snippet_language ?t
          \<and> method_id res = ''youtube-data-api-'' @ snippet_trackKind ?t"
    using primary_uses_selected_track [of w s videoId apiKey r listingText its ?t res] sel
    by blast
  from sel props used show ?thesis by blast
qed

text \<open>
  The two lists of the claim: from a French standard track followed by an English
  automatic track the English automatic track is selected, and on the sample video the
  result of the strategy is labelled with it; from an English automatic track followed
  by an English standard track the standard one is selected.
\<close>

theorem selectTrack_priority_witness:
  "[frenchStandard, englishAuto] \<noteq> []
   \<and> selectTrack [frenchStandard, englishAuto] = Some englishAuto
   \<and> selectTrack [englishAuto, englishStandard] = Some englishStandard
   \<and> fst (extractWithYouTubeDataAPI captionedWorld ''abcDEF12345'' ''KEY'' freshSession)
       = Inr (Some sampleResult)
   \<and> language sampleResult = snippet_language englishAuto
   \<and> method_id sampleResult = ''youtube-data-api-'' @ snippet_trackKind englishAuto"
proof -
  have ne: "[frenchStandard, englishAuto] \<noteq> []" "[englishAuto, englishStandard] \<noteq> []"
    by simp_all
  have run: "fst (extractWithYouTubeDataAPI captionedWorld ''abcDEF12345'' ''KEY'' freshSession)
      = Inr (Some sampleResult)"
    by (simp add: captionedWorld_primary)
  have listing: "fetch captionedWorld (tick freshSession)
        \<lparr>req_url = captionsListUrl ''abcDEF12345'' ''KEY'', req_userAgent = None\<rparr>
      = Inr \<lparr>ok = True, status = 200, body = Inr ''{...}''\<rparr>
    \<and> ok \<lparr>ok = True, status = 200, body = Inr ''{...}''\<rparr>
    \<and> body \<lparr>ok = True, status = 200, body = Inr ''{...}''\<rparr> = Inr ''{...}''
    \<and> parseListing captionedWorld ''{...}'' = Inr \<lparr>items = Some [frenchStandard, englishAuto]\<rparr>"
    by (simp add: captionedWorld_def sampleTracks_def)
  from selectTrack_priority
         [OF ne(1), of captionedWorld freshSession "''abcDEF12345''" "''KEY''"
            "\<lparr>ok = True, status = 200, body = Inr ''{...}''\<rparr>" "''{...}''" sampleResult]
    run listing
  have 1: "selectTrack [frenchStandard, englishAuto] = Some englishAuto
      \<and> language sampleResult = snippet_language englishAuto
      \<and> method_id sampleResult = ''youtube-data-api-'' @ snippet_trackKind englishAuto"
    by (auto simp: frenchStandard_def englishAuto_def)
  from selectTrack_priority [OF ne(2)]
  have 2: "selectTrack [englishAuto, englishStandard] = Some englishStandard"
    by (auto simp: englishStandard_def englishAuto_def)
  from ne 1 2 run show ?thesis by simp
qed

lemma extractWithYouTubeDataAPI_no_tracks:
  assumes listing: "\<And>n req. req_url req = captionsListUrl videoId k \<Longrightarrow>
        \<exists>r. fetch w n req = Inr r \<and> ok r
          \<and> (\<exists>t. body r = Inr t \<and> parseListing w t = Inr \<lparr>items = Some []\<rparr>)"
  shows "fst (extractWithYouTubeDataAPI w videoId k s) = Inr None"
proof -
  let ?req = "\<lparr>req_url = captionsListUrl videoId k, req_userAgent = None\<rparr>"
  from listing [of ?req "tick s"] obtain r t where
    "fetch w (tick s) ?req = Inr r" "ok r" "body r = Inr t"
    "parseListing w t = Inr \<lparr>items = Some []\<rparr>"
    by auto
  then show ?thesis
    by (simp add: extractWithYouTubeDataAPI_def extractWithYouTubeDataAPI_with_def io_defs
          responseJson_def)
qed

lemma extractCaptions_all_faults:
  assumes net: "\<And>n req. fetch w n req = Inl (netError n req)"
    and imp: "\<And>n. importPackage w n = Inl (importError n)"
  shows "fst (extractCaptions w videoId apiKey s) = Inr None"
proof -
  have a: "fst (primaryStage analyzeTranscriptQuality w videoId apiKey s1) = Inr None" for s1
    by (simp add: primaryStage_def extractWithYouTubeDataAPI_with_def io_defs net
          split: option.splits)
  have b: "fst (extractWithYoutubeTranscript w videoId s1) = Inr None" for s1
    by (simp add: extractWithYoutubeTranscript_def extractWithYoutubeTranscript_with_def
          io_defs imp)
  have c: "fst (extractWithTimedTextAPI w videoId s1) = Inr None" for s1
    by (simp add: extractWithTimedTextAPI_def io_defs net)
  have d: "fst (extractWithLanguageFallback w videoId s1) = Inr None" for s1
    by (simp add: extractWithLanguageFallback_def io_defs net languages_def attemptLanguage_def)
  obtain sA where 1: "primaryStage analyzeTranscriptQuality w videoId apiKey s = (Inr None, sA)"
    using a [of s] by (cases "primaryStage analyzeTranscriptQuality w videoId apiKey s") simp
  obtain sB where 2: "extractWithYoutubeTranscript w videoId sA = (Inr None, sB)"
    using b [of sA] by (cases "extractWithYoutubeTranscript w videoId sA") simp
  obtain sC where 3: "extractWithTimedTextAPI w videoId sB = (Inr None, sC)"
    using c [of sB] by (cases "extractWithTimedTextAPI w videoId sB") simp
  obtain sD where 4: "extractWithLanguageFallback w videoId sC = (Inr None, sD)"
    using d [of sC] by (cases "extractWithLanguageFallback w videoId sC") simp
  from extractCaptions_exhausted
         [of analyzeTranscriptQuality, OF 1 2 [unfolded extractWithYoutubeTranscript_def] 3 4]
  show ?thesis by (simp add: extractCaptions_def)
qed

text \<open>
  C3 asks that \<open>extractCaptions\<close> return null whenever every strategy fails to produce a
  transcript, and counts a decoded candidate at or below the threshold of 50 characters
  as such a failure. Strategies B, C and D reject a candidate only when
  \<open>transcript.length < 50\<close> (lines 249, 380 and 455), where the primary strategy requires
  \<open>transcript.length > 50\<close> (line 187). In a world where every network request fails and
  the transcript package delivers one cue of exactly 50 characters, run with a key, the
  primary strategy fails on the network fault, the only decoded candidate has 50
  characters, strategies C and D fail on the network fault from every session, and
  \<open>extractCaptions\<close> returns the candidate instead of null.
\<close>

theorem extractCaptions_threshold_not_null:
  "fst (primaryStage analyzeTranscriptQuality
          (packageWorld (Inr (Some fiftyCues)) (Inl (Error ''unused''))) ''abcDEF12345'' (Some ''KEY'')
          freshSession) = Inr None
   \<and> length (trim (collapseWs (joinWith '' '' (map cueText fiftyCues)))) = 50
   \<and> (\<forall>s. fst (extractWithTimedTextAPI
          (packageWorld (Inr (Some fiftyCues)) (Inl (Error ''unused''))) ''abcDEF12345'' s) = Inr None)
   \<and> (\<forall>s. fst (extractWithLanguageFallback
          (packageWorld (Inr (Some fiftyCues)) (Inl (Error ''unused''))) ''abcDEF12345'' s) = Inr None)
   \<and> fst (extractCaptions (packageWorld (Inr (Some fiftyCues)) (Inl (Error ''unused'')))
          ''abcDEF12345'' (Some ''KEY'') freshSession)
      = Inr (Some \<lparr>transcript = ''The quick brown fox jumps over the lazy dog today.'',
           source = ''captions'', language = ''en'', method_id = ''youtube-transcript-package''\<rparr>)"
proof (intro conjI allI)
  let ?w = "packageWorld (Inr (Some fiftyCues)) (Inl (Error ''unused''))"
  show "fst (primaryStage analyzeTranscriptQuality ?w ''abcDEF12345'' (Some ''KEY'') freshSession)
      = Inr None"
    by (simp add: primaryStage_def extractWithYouTubeDataAPI_with_def io_defs packageWorld_def)
  show "length (trim (collapseWs (joinWith '' '' (map cueText fiftyCues)))) = 50"
    by (simp add: fiftyCues_def trim_def isSpace_def)
  show "fst (extractWithTimedTextAPI ?w ''abcDEF12345'' s) = Inr None" for s
    by (simp add: extractWithTimedTextAPI_def io_defs packageWorld_def)
  show "fst (extractWithLanguageFallback ?w ''abcDEF12345'' s) = Inr None" for s
    by (simp add: extractWithLanguageFallback_def io_defs packageWorld_def languages_def
          attemptLanguage_def)
  show "fst (extractCaptions ?w ''abcDEF12345'' (Some ''KEY'') freshSession)
      = Inr (Some \<lparr>transcript = ''The quick brown fox jumps over the lazy dog today.'',
           source = ''captions'', language = ''en'', method_id = ''youtube-transcript-package''\<rparr>)"
    by (simp add: extractCaptions_def extractCaptions_with_def primaryStage_def
          extractWithYouTubeDataAPI_with_def
          extractWithYoutubeTranscript_with_def io_defs packageWorld_def fiftyCues_def succeed_def
          trim_def isSpace_def freshSession_def Let_def)
qed

text \<open>
  What the code does guarantee: \<open>extractCaptions\<close> never throws, from every session, in
  every world, for every video id and key it returns a value. When the primary stage,
  then B, C and D, each run where the one before left off, each give null,
  \<open>extractCaptions\<close> returns null, and the only thing it adds is the closing line. In
  particular, when every network request and the import of the package fail, the outcome
  is null.
\<close>

theorem extractCaptions_no_transcript:
  "(\<exists>r s'. extractCaptions w videoId apiKey s = (Inr r, s'))
   \<and> (primaryStage analyzeTranscriptQuality w videoId apiKey s = (Inr None, sA)
        \<and> extractWithYoutubeTranscript w videoId sA = (Inr None, sB)
        \<and> extractWithTimedTextAPI w videoId sB = (Inr None, sC)
        \<and> extractWithLanguageFallback w videoId sC = (Inr None, sD) \<longrightarrow>
      extractCaptions w videoId apiKey s = (Inr None, sD\<lparr>trace := trace sD @ [AllFailed]\<rparr>))
   \<and> ((\<forall>n req. \<exists>e. fetch w n req = Inl e) \<and> (\<forall>n. \<exists>e. importPackage w n = Inl e) \<longrightarrow>
      fst (extractCaptions w videoId apiKey s) = Inr None)"
proof (intro conjI)
  show "\<exists>r s'. extractCaptions w videoId apiKey s = (Inr r, s')"
    using extractCaptions_with_nothrow [of analyzeTranscriptQuality w videoId apiKey]
    by (simp add: nothrow_def extractCaptions_def)
next
  show "primaryStage analyzeTranscriptQuality w videoId apiKey s = (Inr None, sA)
        \<and> extractWithYoutubeTranscript w videoId sA = (Inr None, sB)
        \<and> extractWithTimedTextAPI w videoId sB = (Inr None, sC)
        \<and> extractWithLanguageFallback w videoId sC = (Inr None, sD) \<longrightarrow>
      extractCaptions w videoId apiKey s = (Inr None, sD\<lparr>trace := trace sD @ [AllFailed]\<rparr>)"
    using extractCaptions_exhausted [of analyzeTranscriptQuality w videoId apiKey s sA sB sC sD]
    by (simp add: extractCaptions_def extractWithYoutubeTranscript_def)
next
  show "(\<forall>n req. \<exists>e. fetch w n req = Inl e) \<and> (\<forall>n. \<exists>e. importPackage w n = Inl e) \<longrightarrow>
      fst (extractCaptions w videoId apiKey s) = Inr None"
  proof
    assume dead: "(\<forall>n req. \<exists>e. fetch w n req = Inl e) \<and> (\<forall>n. \<exists>e. importPackage w n = Inl e)"
    then obtain netError where net: "\<And>n req. fetch w n req = Inl (netError n req)"
      by metis
    from dead obtain importError where imp: "\<And>n. importPackage w n = Inl (importError n)"
      by metis
    from extractCaptions_all_faults [of w netError importError, OF net imp]
    show "fst (extractCaptions w videoId apiKey s) = Inr None" .
  qed
qed

text \<open>
  A video without captions: the listing has no track, the package finds no transcript,
  the page names no track and the brute force finds nothing under its four language
  codes. Nine external calls are made and the outcome is null.
\<close>

theorem extractCaptions_no_transcript_witness:
  "fst (primaryStage analyzeTranscriptQuality noCaptionsWorld ''abcDEF12345'' (Some ''KEY'') freshSession)
     = Inr None
   \<and> fst (extractCaptions noCaptionsWorld ''abcDEF12345'' (Some ''KEY'') freshSession) = Inr None
   \<and> tick (snd (extractCaptions noCaptionsWorld ''abcDEF12345'' (Some ''KEY'') freshSession)) = 9
   \<and> last (trace (snd (extractCaptions noCaptionsWorld ''abcDEF12345'' (Some ''KEY'') freshSession)))
       = AllFailed"
proof -
  obtain sA where a: "primaryStage analyzeTranscriptQuality noCaptionsWorld ''abcDEF12345''
      (Some ''KEY'') freshSession = (Inr None, sA)" and ta: "tick sA = 1"
    using noCaptions_primary [of freshSession]
    by (simp add: primaryStage_def extractWithYouTubeDataAPI_def freshSession_def)
  obtain sB where b: "extractWithYoutubeTranscript noCaptionsWorld ''abcDEF12345'' sA = (Inr None, sB)"
    and tb: "tick sB = 4"
    using noCaptions_B [of sA] ta by simp
  obtain sC where c: "extractWithTimedTextAPI noCaptionsWorld ''abcDEF12345'' sB = (Inr None, sC)"
    and tc: "tick sC = 5"
    using noCaptions_C [of sB] tb by simp
  obtain sD where d: "extractWithLanguageFallback noCaptionsWorld ''abcDEF12345'' sC = (Inr None, sD)"
    and td: "tick sD = 9"
    using noCaptions_D_run [of sC] tc by simp
  from extractCaptions_no_transcript
         [of noCaptionsWorld "''abcDEF12345''" "Some ''KEY''" freshSession sA sB sC sD] a b c d
  have "extractCaptions noCaptionsWorld ''abcDEF12345'' (Some ''KEY'') freshSession
          = (Inr None, sD\<lparr>trace := trace sD @ [AllFailed]\<rparr>)"
    by blast
  with a td show ?thesis by simp
qed

text \<open>
  C4. When a key is present (not the empty string) and the primary strategy returns a
  result, \<open>extractCaptions\<close> returns that result. The session it leaves is the one the
  primary strategy left, with the success line appended: no external call follows, and
  what the run added to the trace holds no banner of strategy B, C or D, no import and
  no request to the transcript package, and no page request (one with a browser
  identity).
\<close>

theorem extractCaptions_short_circuit:
  assumes key: "apiKey \<noteq> []"
    and primary: "fst (extractWithYouTubeDataAPI w videoId apiKey s) = Inr (Some result)"
  shows "fst (extractCaptions w videoId (Some apiKey) s) = Inr (Some result)
    \<and> snd (extractCaptions w videoId (Some apiKey) s) =
        (snd (extractWithYouTubeDataAPI w videoId apiKey s))
          \<lparr>trace := trace (snd (extractWithYouTubeDataAPI w videoId apiKey s)) @ [Success StrategyA]\<rparr>
    \<and> (\<exists>evs. trace (snd (extractCaptions w videoId (Some apiKey) s))
                 = trace s @ evs @ [Success StrategyA]
          \<and> Banner StrategyB \<notin> set evs \<and> Banner StrategyC \<notin> set evs
          \<and> Banner StrategyD \<notin> set evs \<and> Imported \<notin> set evs
          \<and> (\<forall>v l. TranscriptRequested v l \<notin> set evs)
          \<and> (\<forall>req. Fetched req \<in> set evs \<longrightarrow> req_userAgent req = None))"
proof -
  obtain s' where run: "extractWithYouTubeDataAPI w videoId apiKey s = (Inr (Some result), s')"
    using primary by (cases "extractWithYouTubeDataAPI w videoId apiKey s") simp
  then have all: "extractCaptions w videoId (Some apiKey) s
      = (Inr (Some result), s'\<lparr>trace := trace s' @ [Success StrategyA]\<rparr>)"
    using key
    by (simp add: extractCaptions_def extractCaptions_with_def primaryStage_def
          extractWithYouTubeDataAPI_def succeed_def io_bind_def io_log_def io_return_def)
  from primary_emits [of analyzeTranscriptQuality w videoId apiKey] run
  obtain evs where evs: "trace s' = trace s @ evs" "list_all primaryEvent evs"
    unfolding emits_def extractWithYouTubeDataAPI_def [symmetric] by (metis snd_conv)
  have none: "ev \<in> set evs \<Longrightarrow> primaryEvent ev" for ev
    using evs(2) by (simp add: list_all_iff)
  have "Banner StrategyB \<notin> set evs" "Banner StrategyC \<notin> set evs" "Banner StrategyD \<notin> set evs"
    "Imported \<notin> set evs" "\<forall>v l. TranscriptRequested v l \<notin> set evs"
    "\<forall>req. Fetched req \<in> set evs \<longrightarrow> req_userAgent req = None"
    using none by fastforce+
  moreover have "trace (snd (extractCaptions w videoId (Some apiKey) s))
      = trace s @ evs @ [Success StrategyA]"
    using all evs(1) by simp
  ultimately show ?thesis using all run by auto
qed

theorem extractCaptions_short_circuit_witness:
  "''KEY'' \<noteq> []
   \<and> fst (extractWithYouTubeDataAPI captionedWorld ''abcDEF12345'' ''KEY'' freshSession) = Inr (Some sampleResult)
   \<and> fst (extractCaptions captionedWorld ''abcDEF12345'' (Some ''KEY'') freshSession) = Inr (Some sampleResult)
   \<and> snd (extractCaptions captionedWorld ''abcDEF12345'' (Some ''KEY'') freshSession) =
       \<lparr>tick = 2, trace = [Banner StrategyA,
         Fetched \<lparr>req_url = captionsListUrl ''abcDEF12345'' ''KEY'', req_userAgent = None\<rparr>,
         Fetched \<lparr>req_url = timedTextUrl ''abcDEF12345'' ''en'' ''srv3'', req_userAgent = None\<rparr>,
         QualityReport (analyzeTranscriptQuality sampleText),
         Success StrategyA]\<rparr>"
proof -
  have key: "''KEY'' \<noteq> []" by simp
  have primary: "fst (extractWithYouTubeDataAPI captionedWorld ''abcDEF12345'' ''KEY'' freshSession)
      = Inr (Some sampleResult)"
    by (simp add: captionedWorld_primary)
  from extractCaptions_short_circuit [OF key primary] key primary
  show ?thesis by (simp add: captionedWorld_primary)
qed

text \<open>
  C5 asks that every markup decode turn the five character entities into their
  characters. The decoder of the primary strategy does (lines 171 to 175). The decoder of
  the page-scrape strategy and of the language brute-force strategy replaces \<open>&\<close> by
  \<open>&\<close>, \<open><\<close> by \<open><\<close> and \<open>>\<close> by \<open>>\<close> (lines 362 to 364 and 440 to 442), which changes
  nothing, so \<open>&amp;\<close>, \<open>&lt;\<close> and \<open>&gt;\<close> stay in its output. Evaluated on one cue: the
  second decoder leaves \<open>Tom &amp; Jerry &lt;3\<close> as it is, the first gives \<open>Tom & Jerry <3\<close>.
  In the first decoder the tags are stripped after the entities are decoded, so a decoded
  \<open><Enter>\<close> is removed with them.
\<close>

theorem decodeMarkup_entities:
  "decodeMarkupB ''<text start=\"0\" dur=\"2\">Tom &amp; Jerry &lt;3</text>'' = ''Tom &amp; Jerry &lt;3''
   \<and> decodeMarkupA ''<text start=\"0\" dur=\"2\">Tom &amp; Jerry &lt;3</text>'' = ''Tom & Jerry <3''
   \<and> decodeMarkupA ''<text start=\"0\" dur=\"2\">press &lt;Enter&gt; &amp; wait</text>'' = ''press & wait''"
  by code_simp

text \<open>
  C7, as stated, fails on a text that starts or ends with white space: the analyzer
  divides by the length of \<open>text.split(/\s+/)\<close>, which counts an empty piece before
  leading and after trailing white space. The text \<open>leadingSpaceText\<close> has one pronoun token
  and 49 white-space-separated words, and \<open>1/49\<close> exceeds \<open>0.02\<close>; the analyzer divides by
  50, finds the ratio not above \<open>0.02\<close> and, no marker being present, reports \<open>MEDIUM\<close>.
\<close>

theorem analyzeTranscriptQuality_leading_space:
  "firstPersonTokens leadingSpaceText = 1
   \<and> wordCount leadingSpaceText = 49
   \<and> (2 / 100 :: real) < real (firstPersonTokens leadingSpaceText) / real (wordCount leadingSpaceText)
   \<and> confidence (analyzeTranscriptQuality leadingSpaceText) = ''MEDIUM''"
proof -
  have p: "firstPersonPronouns leadingSpaceText = 1" by code_simp
  have w: "length (wordsOf leadingSpaceText) = 49" by code_simp
  have t: "totalWords leadingSpaceText = 50" by code_simp
  have c: "\<not> hasConversational leadingSpaceText" by code_simp
  from p t have "\<not> firstPersonRatio leadingSpaceText > 0.02"
    by (simp add: firstPersonRatio_def)
  with c have "confidence (analyzeTranscriptQuality leadingSpaceText) = ''MEDIUM''"
    by (simp add: analyzeTranscriptQuality_def)
  moreover from p have "firstPersonTokens leadingSpaceText = 1"
    by (simp add: firstPersonPronouns_count)
  moreover from w have "wordCount leadingSpaceText = 49"
    by (simp add: wordCount_wordsOf)
  ultimately show ?thesis by simp
qed

text \<open>
  C7, amended. For every text, \<open>analyzeTranscriptQuality\<close> reports \<open>likelySpoken\<close> true. Its
  confidence is \<open>HIGH\<close> exactly when the number of first-person-pronoun tokens (the tokens
  of the lower-cased text that are one of i, we, my, our, me, us) divided by the number
  of pieces of the text exceeds 0.02, or one of the twelve conversational markers occurs
  in the lower-cased text; otherwise it is \<open>MEDIUM\<close>. The number of pieces is the number
  of white-space-separated words, plus one when the text is empty or starts with white
  space, plus one when it ends with white space; on a non-empty text that neither starts
  nor ends with white space it is the number of words. It is never zero.
\<close>

theorem analyzeTranscriptQuality_confidence:
  "likelySpoken (analyzeTranscriptQuality text)
   \<and> (confidence (analyzeTranscriptQuality text) = ''HIGH'' \<longleftrightarrow>
        2 / 100 < real (firstPersonTokens text) / real (pieceCount text)
        \<or> (\<exists>word\<in>set [''I '', ''you '', ''we '', ''hello'', ''hi '', ''hey '', ''thanks'', ''okay'',
                         ''right'', ''so '', ''um '', ''uh ''].
              \<exists>pre post. lowerCased text = pre @ word @ post))
   \<and> (confidence (analyzeTranscriptQuality text) \<noteq> ''HIGH'' \<longrightarrow>
        confidence (analyzeTranscriptQuality text) = ''MEDIUM'')
   \<and> 0 < pieceCount text
   \<and> (text \<noteq> [] \<and> \<not> spaceCode (of_char (hd text)) \<and> \<not> spaceCode (of_char (last text)) \<longrightarrow>
        pieceCount text = wordCount text)"
proof -
  have ratio: "firstPersonRatio text = real (firstPersonTokens text) / real (pieceCount text)"
    by (simp only: firstPersonRatio_def firstPersonPronouns_count totalWords_pieces)
  have "confidence (analyzeTranscriptQuality text) = ''HIGH'' \<longleftrightarrow>
      (0.02 < firstPersonRatio text \<or> hasConversational text)"
    by (simp add: analyzeTranscriptQuality_def)
  moreover have "(0.02 :: real) = 2 / 100" by simp
  ultimately have high: "confidence (analyzeTranscriptQuality text) = ''HIGH'' \<longleftrightarrow>
        2 / 100 < real (firstPersonTokens text) / real (pieceCount text)
        \<or> (\<exists>word\<in>set [''I '', ''you '', ''we '', ''hello'', ''hi '', ''hey '', ''thanks'', ''okay'',
                         ''right'', ''so '', ''um '', ''uh ''].
              \<exists>pre post. lowerCased text = pre @ word @ post)"
    by (simp only: ratio hasConversational_marker)
  have "likelySpoken (analyzeTranscriptQuality text)"
    by (simp add: analyzeTranscriptQuality_def)
  moreover have "confidence (analyzeTranscriptQuality text) \<noteq> ''HIGH'' \<longrightarrow>
        confidence (analyzeTranscriptQuality text) = ''MEDIUM''"
    by (simp add: analyzeTranscriptQuality_def)
  moreover have "text \<noteq> [] \<and> \<not> spaceCode (of_char (hd text)) \<and> \<not> spaceCode (of_char (last text)) \<longrightarrow>
        pieceCount text = wordCount text"
    by (simp add: pieceCount_def)
  moreover have "0 < pieceCount text"
    using totalWords_positive [of "text"] by (simp only: totalWords_pieces)
  ultimately show ?thesis
    using high by blast
qed

text \<open>
  An upper-case text with one pronoun among two words and no marker, a text with a
  marker and no pronoun, and a text with neither.
\<close>

theorem analyzeTranscriptQuality_confidence_witness:
  "confidence (analyzeTranscriptQuality ''MY CAT'') = ''HIGH''
   \<and> confidence (analyzeTranscriptQuality ''Okay then'') = ''HIGH''
   \<and> confidence (analyzeTranscriptQuality ''The cat sat'') = ''MEDIUM''
   \<and> likelySpoken (analyzeTranscriptQuality ''The cat sat'')
   \<and> pieceCount ''The cat sat'' = wordCount ''The cat sat''"
proof -
  note model = firstPersonPronouns_count [symmetric] totalWords_pieces [symmetric]
  have "firstPersonTokens ''MY CAT'' = 1 \<and> pieceCount ''MY CAT'' = 2"
    unfolding model by code_simp
  then have "2 / 100 < real (firstPersonTokens ''MY CAT'') / real (pieceCount ''MY CAT'')"
    by simp
  with analyzeTranscriptQuality_confidence [of "''MY CAT''"]
  have ratio: "confidence (analyzeTranscriptQuality ''MY CAT'') = ''HIGH''" by blast
  have "lowerCased ''Okay then'' = [] @ ''okay'' @ '' then''"
    unfolding toLowerCase_lowerCased [symmetric] by code_simp
  moreover have "''okay'' \<in> set [''I '', ''you '', ''we '', ''hello'', ''hi '', ''hey '', ''thanks'', ''okay'',
                         ''right'', ''so '', ''um '', ''uh '']"
    by simp
  ultimately have "\<exists>word\<in>set [''I '', ''you '', ''we '', ''hello'', ''hi '', ''hey '', ''thanks'', ''okay'',
                         ''right'', ''so '', ''um '', ''uh ''].
              \<exists>pre post. lowerCased ''Okay then'' = pre @ word @ post"
    by blast
  with analyzeTranscriptQuality_confidence [of "''Okay then''"]
  have marker: "confidence (analyzeTranscriptQuality ''Okay then'') = ''HIGH''" by blast
  have "firstPersonTokens ''The cat sat'' = 0"
    unfolding model by code_simp
  then have r: "\<not> 2 / 100 < real (firstPersonTokens ''The cat sat'') / real (pieceCount ''The cat sat'')"
    by simp
  have "\<not> hasConversational ''The cat sat''" by code_simp
  then have m: "\<not> (\<exists>word\<in>set [''I '', ''you '', ''we '', ''hello'', ''hi '', ''hey '', ''thanks'', ''okay'',
                         ''right'', ''so '', ''um '', ''uh ''].
              \<exists>pre post. lowerCased ''The cat sat'' = pre @ word @ post)"
    unfolding hasConversational_marker .
  have ne: "''The cat sat'' \<noteq> [] \<and> \<not> spaceCode (of_char (hd ''The cat sat''))
      \<and> \<not> spaceCode (of_char (last ''The cat sat''))"
    by (simp add: spaceCode_def)
  from analyzeTranscriptQuality_confidence [of "''The cat sat''"] r m ne
  have "confidence (analyzeTranscriptQuality ''The cat sat'') = ''MEDIUM''
      \<and> likelySpoken (analyzeTranscriptQuality ''The cat sat'')
      \<and> pieceCount ''The cat sat'' = wordCount ''The cat sat''"
    by blast
  with ratio marker show ?thesis by blast
qed

text \<open>
  C8. The quality assessment never gates extraction. Let two runs start from the same
  session in the same world, with the same video id and key, and differ only in the
  analyzer that produces the assessment. Then \<open>extractCaptions\<close> ends with the same
  outcome, null or the same result in every field, after the same number of external
  calls, and with the same trace once the quality reports are left out; the primary
  strategy and strategy B, the two that call the analyzer, end with the same outcome too.
\<close>

theorem quality_never_gates:
  "fst (extractCaptions_with analyze w videoId apiKey s)
     = fst (extractCaptions_with analyze' w videoId apiKey s)
   \<and> tick (snd (extractCaptions_with analyze w videoId apiKey s))
     = tick (snd (extractCaptions_with analyze' w videoId apiKey s))
   \<and> filter (\<lambda>ev. \<not> isReport ev) (trace (snd (extractCaptions_with analyze w videoId apiKey s)))
     = filter (\<lambda>ev. \<not> isReport ev) (trace (snd (extractCaptions_with analyze' w videoId apiKey s)))
   \<and> fst (extractWithYouTubeDataAPI_with analyze w videoId key s)
     = fst (extractWithYouTubeDataAPI_with analyze' w videoId key s)
   \<and> fst (extractWithYoutubeTranscript_with analyze w videoId s)
     = fst (extractWithYoutubeTranscript_with analyze' w videoId s)"
proof -
  have same: "similar s s" by (simp add: similar_def)
  from extractCaptions_agree [of analyze w videoId apiKey analyze', unfolded agree_def,
      rule_format, OF same]
    primary_agree [of analyze w videoId key analyze', unfolded agree_def, rule_format, OF same]
    strategyB_agree [of analyze w videoId analyze', unfolded agree_def, rule_format, OF same]
  show ?thesis by (simp add: similar_def)
qed

text \<open>
  On the sample video an analyzer that rejects every text leaves the result as it is.
\<close>

theorem quality_never_gates_witness:
  "fst (extractCaptions_with lowAnalyzer captionedWorld ''abcDEF12345'' (Some ''KEY'') freshSession)
     = Inr (Some sampleResult)
   \<and> fst (extractCaptions captionedWorld ''abcDEF12345'' (Some ''KEY'') freshSession)
     = Inr (Some sampleResult)
   \<and> lowAnalyzer sampleText \<noteq> analyzeTranscriptQuality sampleText"
proof -
  have "fst (extractCaptions captionedWorld ''abcDEF12345'' (Some ''KEY'') freshSession)
      = Inr (Some sampleResult)"
    using captionedWorld_primary
    by (simp add: extractCaptions_def extractCaptions_with_def primaryStage_def
          extractWithYouTubeDataAPI_def succeed_def io_bind_def io_log_def io_return_def)
  moreover have "lowAnalyzer sampleText \<noteq> analyzeTranscriptQuality sampleText"
    by (simp add: lowAnalyzer_def analyzeTranscriptQuality_def)
  ultimately show ?thesis
    using quality_never_gates
            [of lowAnalyzer captionedWorld "''abcDEF12345''" "Some ''KEY''" freshSession
                analyzeTranscriptQuality "''KEY''"]
    by (simp add: extractCaptions_def)
qed

lemma strategyB_labels:
  "returns (extractWithYoutubeTranscript_with analyze w videoId)
     (\<lambda>r. case r of None \<Rightarrow> True
           | Some res \<Rightarrow> language res = ''en'' \<and> method_id res = ''youtube-transcript-package'')"
  unfolding extractWithYoutubeTranscript_with_def
  by (auto intro!: returns_catch returns_bind returns_return simp: Let_def split: option.splits)

text \<open>
  C10. Every result of strategy B carries the language \<open>en\<close> and the method
  \<open>youtube-transcript-package\<close>. That includes the retry path: when the package is
  imported, the request for English cues throws and the request without a language
  delivers cues whose joined text has at least 50 characters, strategy B returns that
  text labelled \<open>en\<close>, whatever language the cues are in.
\<close>

theorem extractWithYoutubeTranscript_language:
  "(fst (extractWithYoutubeTranscript w videoId s) = Inr (Some res) \<longrightarrow>
      language res = ''en'' \<and> method_id res = ''youtube-transcript-package'')
   \<and> (importPackage w (tick s) = Inr ()
        \<and> fetchTranscript w (Suc (tick s)) videoId (Some ''en'') = Inl e
        \<and> fetchTranscript w (Suc (Suc (tick s))) videoId None = Inr (Some cues)
        \<and> cues \<noteq> []
        \<and> 50 \<le> length (trim (collapseWs (joinWith '' '' (map cueText cues)))) \<longrightarrow>
      fst (extractWithYoutubeTranscript w videoId s) =
        Inr (Some \<lparr>transcript = trim (collapseWs (joinWith '' '' (map cueText cues))),
                   source = ''captions'', language = ''en'',
                   method_id = ''youtube-transcript-package''\<rparr>))"
proof (rule conjI; rule impI)
  assume r: "fst (extractWithYoutubeTranscript w videoId s) = Inr (Some res)"
  then obtain s' where "extractWithYoutubeTranscript w videoId s = (Inr (Some res), s')"
    by (cases "extractWithYoutubeTranscript w videoId s") simp
  with returnsD [OF strategyB_labels, of analyzeTranscriptQuality w videoId s "Some res" s']
  show "language res = ''en'' \<and> method_id res = ''youtube-transcript-package''"
    by (simp add: extractWithYoutubeTranscript_def)
next
  assume a: "importPackage w (tick s) = Inr ()
        \<and> fetchTranscript w (Suc (tick s)) videoId (Some ''en'') = Inl e
        \<and> fetchTranscript w (Suc (Suc (tick s))) videoId None = Inr (Some cues)
        \<and> cues \<noteq> []
        \<and> 50 \<le> length (trim (collapseWs (joinWith '' '' (map cueText cues))))"
  then show "fst (extractWithYoutubeTranscript w videoId s) =
        Inr (Some \<lparr>transcript = trim (collapseWs (joinWith '' '' (map cueText cues))),
                   source = ''captions'', language = ''en'',
                   method_id = ''youtube-transcript-package''\<rparr>)"
    by (simp add: extractWithYoutubeTranscript_def extractWithYoutubeTranscript_with_def io_defs
          Let_def)
qed

text \<open>
  The retry path on French cues: the result is labelled \<open>en\<close>.
\<close>

theorem extractWithYoutubeTranscript_language_witness:
  "fst (extractWithYoutubeTranscript
         (packageWorld (Inl (Error ''No transcripts are available in en'')) (Inr (Some frenchCues)))
         ''abcDEF12345'' freshSession)
     = Inr (Some \<lparr>transcript = ''Bonjour tout le monde et bienvenue sur la chaine nous parlons des sous-titres automatiques'',
          source = ''captions'', language = ''en'', method_id = ''youtube-transcript-package''\<rparr>)
   \<and> language \<lparr>transcript = ''Bonjour tout le monde et bienvenue sur la chaine nous parlons des sous-titres automatiques'',
          source = ''captions'', language = ''en'', method_id = ''youtube-transcript-package''\<rparr> = ''en''"
proof -
  let ?w = "packageWorld (Inl (Error ''No transcripts are available in en'')) (Inr (Some frenchCues))"
  have cues: "trim (collapseWs (joinWith '' '' (map cueText frenchCues))) =
      ''Bonjour tout le monde et bienvenue sur la chaine nous parlons des sous-titres automatiques''"
    by (simp add: frenchCues_def trim_def isSpace_def)
  have pre: "importPackage ?w (tick freshSession) = Inr ()
        \<and> fetchTranscript ?w (Suc (tick freshSession)) ''abcDEF12345'' (Some ''en'')
            = Inl (Error ''No transcripts are available in en'')
        \<and> fetchTranscript ?w (Suc (Suc (tick freshSession))) ''abcDEF12345'' None = Inr (Some frenchCues)
        \<and> frenchCues \<noteq> []
        \<and> 50 \<le> length (trim (collapseWs (joinWith '' '' (map cueText frenchCues))))"
    by (simp add: cues) (simp add: packageWorld_def frenchCues_def)
  from extractWithYoutubeTranscript_language
         [of ?w "''abcDEF12345''" freshSession _ "Error ''No transcripts are available in en''" frenchCues]
    pre
  have "fst (extractWithYoutubeTranscript ?w ''abcDEF12345'' freshSession) =
        Inr (Some \<lparr>transcript = trim (collapseWs (joinWith '' '' (map cueText frenchCues))),
                   source = ''captions'', language = ''en'',
                   method_id = ''youtube-transcript-package''\<rparr>)"
    by blast
  then show ?thesis by (simp add: cues)
qed

end
